theory Spec2Isabelle
  imports Main "HOL-Library.Word"
begin

section \<open>Values, identifiers and the child process\<close>

text \<open>
  The development follows \<^verbatim>\<open>src/helpers/terminal.ts\<close> (class \<^verbatim>\<open>Terminal\<close>) and
  \<^verbatim>\<open>downloadValueSelector\<close> of \<^verbatim>\<open>src/yt-dlp-helper.ts\<close> with the two regular expressions
  of \<^verbatim>\<open>helpers/constants\<close>.

  A JavaScript string is a list of UTF-16 code units. Identifiers, signal names and
  platform names are ASCII and are written as HOL strings.
\<close>

type_synonym code_unit = nat
type_synonym jsstring = "code_unit list"
type_synonym chunk = jsstring
type_synonym ref = nat
type_synonym signal = string

definition js :: "string \<Rightarrow> jsstring" where
  "js s = map of_char s"

text \<open>
  The values an exit field can hold. A private field that is declared without an
  initialiser and never assigned holds \<^verbatim>\<open>undefined\<close>; Node passes \<^verbatim>\<open>null\<close>, a number or
  a signal name to a \<^verbatim>\<open>'close'\<close> listener.
\<close>

datatype jsval = Undefined | Null | Num int | Str string

datatype error = SpawnError string | StreamError string | TypeError | SyntaxError

text \<open>\<^verbatim>\<open>crypto.randomBytes(16).toString('hex')\<close>: two lower-case hex digits per byte.\<close>

definition hex_digit :: "nat \<Rightarrow> char" where
  "hex_digit n = ''0123456789abcdef'' ! (n mod 16)"

definition byte_hex :: "8 word \<Rightarrow> string" where
  "byte_hex b = [hex_digit (unat b div 16), hex_digit (unat b mod 16)]"

definition toString_hex :: "8 word list \<Rightarrow> string" where
  "toString_hex bs = concat (map byte_hex bs)"

text \<open>
  The part of Node's \<^verbatim>\<open>ChildProcess\<close> that the controller touches. \<open>stdout\<close> is
  \<open>None\<close> when the process has no output stream; otherwise it holds the indexed own
  properties of the stream object (see \<open>Array_prototype_push\<close> below).
\<close>

record child_process =
  pid :: "nat option"
  killed :: bool
  stdout :: "chunk list option"

text \<open>
  \<^verbatim>\<open>Array.prototype.push\<close> is generic: it appends to its receiver, whatever object
  \<^verbatim>\<open>this\<close> is. An array-like receiver is represented by the list of its indexed
  properties.
\<close>

definition Array_prototype_push :: "'a list \<Rightarrow> 'a \<Rightarrow> 'a list" where
  "Array_prototype_push this x = this @ [x]"

section \<open>The controller\<close>

record 'v terminal =
  t_id :: string
  t_process :: child_process
  t_data :: "chunk list"
  t_running :: bool
  t_valueSelector :: "(jsstring \<Rightarrow> error + 'v) option"
  t_exitCode :: jsval
  t_exitSignal :: jsval

text \<open>
  Process-wide state: the static fields \<^verbatim>\<open>#all\<close>, \<^verbatim>\<open>#lastRun\<close> and \<^verbatim>\<open>runIntervalMS\<close>,
  and the store of controller objects (a reference is an index into \<open>heap\<close>).
\<close>

record 'v world =
  all :: "string \<rightharpoonup> ref"
  heap :: "'v terminal list"
  lastRun :: int
  runIntervalMS :: int

definition initial_world :: "'v world" where
  "initial_world = \<lparr>all = Map.empty, heap = [], lastRun = 0, runIntervalMS = 500\<rparr>"

text \<open>
  The constructor (lines 96--118): a fresh identifier, an empty buffer, running, no
  exit fields assigned; the controller is registered under its identifier. \<open>rnd\<close> is
  what \<^verbatim>\<open>crypto.randomBytes(16)\<close> returned.
\<close>

definition Terminal_init ::
  "8 word list \<Rightarrow> child_process \<Rightarrow> (jsstring \<Rightarrow> error + 'v) option \<Rightarrow> 'v terminal" where
  "Terminal_init rnd process valueSelector =
     \<lparr>t_id = toString_hex rnd, t_process = process, t_data = [], t_running = True,
      t_valueSelector = valueSelector, t_exitCode = Undefined, t_exitSignal = Undefined\<rparr>"

definition Terminal_constructor ::
  "8 word list \<Rightarrow> child_process \<Rightarrow> (jsstring \<Rightarrow> error + 'v) option \<Rightarrow> 'v world
     \<Rightarrow> 'v world \<times> ref" where
  "Terminal_constructor rnd process valueSelector w =
     (let this = length (heap w); t = Terminal_init rnd process valueSelector
      in (w\<lparr>heap := heap w @ [t], all := (all w)(t_id t \<mapsto> this)\<rparr>, this))"

text \<open>
  The \<^verbatim>\<open>'data'\<close> listener of line 109 is the function value \<^verbatim>\<open>this.#data.push\<close>, that is
  \<^verbatim>\<open>Array.prototype.push\<close> itself, not bound to the buffer. An event emitter calls a
  listener with the emitter as receiver, so each chunk is appended to the stream
  object and \<^verbatim>\<open>#data\<close> is left as it is.
\<close>

definition on_data :: "chunk \<Rightarrow> 'v terminal \<Rightarrow> 'v terminal" where
  "on_data c t =
     (case stdout (t_process t) of
        None \<Rightarrow> t
      | Some emitter \<Rightarrow>
          t\<lparr>t_process := (t_process t)\<lparr>stdout := Some (Array_prototype_push emitter c)\<rparr>\<rparr>)"

text \<open>The \<^verbatim>\<open>'close'\<close> listener (lines 111--117), on the controller and on the registry.\<close>

definition on_close_terminal :: "jsval \<Rightarrow> jsval \<Rightarrow> 'v terminal \<Rightarrow> 'v terminal" where
  "on_close_terminal code sig t = t\<lparr>t_running := False, t_exitCode := code, t_exitSignal := sig\<rparr>"

definition on_close :: "ref \<Rightarrow> jsval \<Rightarrow> jsval \<Rightarrow> 'v world \<Rightarrow> 'v world" where
  "on_close r code sig w =
     (if r < length (heap w)
      then w\<lparr>heap := (heap w)[r := on_close_terminal code sig (heap w ! r)],
              all := (all w)(t_id (heap w ! r) := None)\<rparr>
      else w)"

text \<open>
  \<^verbatim>\<open>fromID\<close> (lines 333--335) reads a property of the plain object \<^verbatim>\<open>#all\<close>: an own
  property if there is one, else what \<^verbatim>\<open>Object.prototype\<close> provides, else \<^verbatim>\<open>undefined\<close>.
\<close>

definition Object_prototype_keys :: "string list" where
  "Object_prototype_keys =
     [''constructor'', ''hasOwnProperty'', ''isPrototypeOf'', ''propertyIsEnumerable'',
      ''toLocaleString'', ''toString'', ''valueOf'', ''__proto__'', ''__defineGetter__'',
      ''__defineSetter__'', ''__lookupGetter__'', ''__lookupSetter__'']"

datatype lookup = Found ref | Inherited | NotFound

definition fromID :: "'v world \<Rightarrow> string \<Rightarrow> lookup" where
  "fromID w ident =
     (case all w ident of
        Some r \<Rightarrow> Found r
      | None \<Rightarrow> if ident \<in> set Object_prototype_keys then Inherited else NotFound)"

text \<open>
  \<^verbatim>\<open>kill\<close> (lines 131--148). Its visible effects are the calls it makes:
  \<^verbatim>\<open>treeKill(pid, signal)\<close> on Windows, \<^verbatim>\<open>process.kill(signal)\<close> elsewhere.
  \<^verbatim>\<open>ChildProcess.kill\<close> sets \<^verbatim>\<open>killed\<close> when the signal was delivered (\<open>delivered\<close>, decided
  by the operating system); \<^verbatim>\<open>treeKill\<close> does not touch the \<^verbatim>\<open>ChildProcess\<close> object.
  Debug logging (\<^verbatim>\<open>Config.log\<close>) is left out.
\<close>

datatype effect = TreeKill nat signal | ProcessKill signal

definition ChildProcess_kill :: "bool \<Rightarrow> child_process \<Rightarrow> child_process" where
  "ChildProcess_kill delivered p = (if delivered then p\<lparr>killed := True\<rparr> else p)"

definition kill :: "string \<Rightarrow> bool \<Rightarrow> signal \<Rightarrow> 'v terminal \<Rightarrow> 'v terminal \<times> effect list" where
  "kill platform delivered sig t =
     (if \<not> t_running t then (t, [])
      else if killed (t_process t) then (t, [])
      else if platform = ''win32'' then
        (case pid (t_process t) of
           None \<Rightarrow> (t, [])
         | Some p \<Rightarrow> (t, [TreeKill p sig]))
      else (t\<lparr>t_process := ChildProcess_kill delivered (t_process t)\<rparr>, [ProcessKill sig]))"

section \<open>Listening\<close>

text \<open>
  A chunk is represented by its UTF-8 decoding, so \<^verbatim>\<open>Buffer.from(c).toString('utf-8')\<close>
  is the identity on the representation.
\<close>

definition toString_utf8 :: "chunk \<Rightarrow> jsstring" where
  "toString_utf8 c = c"

text \<open>
  What the asynchronous iterator of the output stream delivers once a consumer
  iterates: chunks, then the end of the stream or its error. A generator's run is the
  list of values it yields and how it completes; \<open>Suspended\<close> is a generator that
  waits for an event that has not come.
\<close>

datatype stream_event = Chunk chunk | End | Error error

datatype completion = Returned | Threw error | Suspended

fun for_await_stdout :: "stream_event list \<Rightarrow> jsstring list \<times> completion" where
  "for_await_stdout [] = ([], Suspended)"
| "for_await_stdout (Chunk bytes # es) =
     (let (ys, k) = for_await_stdout es in (toString_utf8 bytes # ys, k))"
| "for_await_stdout (End # es) = ([], Returned)"
| "for_await_stdout (Error e # es) = ([], Threw e)"

text \<open>\<^verbatim>\<open>#listen\<close> (lines 150--164): the buffer first, then the live stream.\<close>

definition listen_private :: "'v terminal \<Rightarrow> stream_event list \<Rightarrow> jsstring list \<times> completion" where
  "listen_private t live =
     (let buffered = map toString_utf8 (t_data t)
      in case stdout (t_process t) of
           None \<Rightarrow> (buffered, Returned)
         | Some _ \<Rightarrow> (let (ys, k) = for_await_stdout live in (buffered @ ys, k)))"

text \<open>
  \<^verbatim>\<open>listen\<close> (lines 175--186): each text is yielded as it is, or as what the value
  selector returns for it. An exception of the selector ends the generator.
\<close>

datatype 'v item = Text jsstring | Selected 'v

fun listen_loop ::
  "(jsstring \<Rightarrow> error + 'v) option \<Rightarrow> jsstring list \<Rightarrow> completion \<Rightarrow> 'v item list \<times> completion" where
  "listen_loop valueSelector [] k = ([], k)"
| "listen_loop valueSelector (text # texts) k =
     (case valueSelector of
        Some f \<Rightarrow>
          (case f text of
             Inl e \<Rightarrow> ([], Threw e)
           | Inr v \<Rightarrow> (let (ys, k') = listen_loop valueSelector texts k in (Selected v # ys, k')))
      | None \<Rightarrow> (let (ys, k') = listen_loop valueSelector texts k in (Text text # ys, k')))"

definition listen :: "'v terminal \<Rightarrow> stream_event list \<Rightarrow> 'v item list \<times> completion" where
  "listen t live = (let (texts, k) = listen_private t live in listen_loop (t_valueSelector t) texts k)"

text \<open>
  The chunks \<open>early\<close> reach the \<^verbatim>\<open>'data'\<close> listener before a consumer iterates (the
  listener put the stream in flowing mode, so they are consumed as they come); the
  events \<open>live\<close> come after.
\<close>

definition listen_after :: "chunk list \<Rightarrow> 'v terminal \<Rightarrow> stream_event list \<Rightarrow> 'v item list \<times> completion" where
  "listen_after early t live = listen (fold on_data early t) live"

section \<open>Launching\<close>

text \<open>The gate of lines 252--270; the second component is the time slept, if any.\<close>

definition gate :: "int \<Rightarrow> 'v world \<Rightarrow> 'v world \<times> int option" where
  "gate now w =
     (let nextRun = lastRun w + runIntervalMS w
      in if nextRun > now then (w\<lparr>lastRun := nextRun\<rparr>, Some (nextRun - now))
         else (w\<lparr>lastRun := now\<rparr>, None))"


text \<open>
  The settle window of one attempt (lines 292--310): the local variable \<^verbatim>\<open>error\<close>, the
  promise, and the \<^verbatim>\<open>once\<close> listeners for \<^verbatim>\<open>'error'\<close> on the process and on its output
  stream, which stay attached until their emitter reports an error. For each emitter
  the first listener assigns \<^verbatim>\<open>error\<close> and the second rejects the promise. The test
  \<^verbatim>\<open>error != null\<close> at the start of the promise runs in the same synchronous step as the
  registration of the first listeners, when no event can have been delivered, so it
  finds \<^verbatim>\<open>null\<close>. The timer resolves the promise after \<^verbatim>\<open>intermissionMS\<close>.
\<close>

datatype emitter = OnProcess | OnStdout

datatype promise = Pending | Resolved | Rejected error

record settle =
  error_var :: "error option"
  promise :: promise
  once_process :: bool
  once_stdout :: bool

definition settle_init :: settle where
  "settle_init = \<lparr>error_var = None, promise = Pending, once_process = True, once_stdout = True\<rparr>"

definition reject :: "error \<Rightarrow> settle \<Rightarrow> settle" where
  "reject e s = (if promise s = Pending then s\<lparr>promise := Rejected e\<rparr> else s)"

definition resolve :: "settle \<Rightarrow> settle" where
  "resolve s = (if promise s = Pending then s\<lparr>promise := Resolved\<rparr> else s)"

definition on_error :: "emitter \<Rightarrow> error \<Rightarrow> settle \<Rightarrow> settle" where
  "on_error src e s =
     (case src of
        OnProcess \<Rightarrow>
          if once_process s then reject e (s\<lparr>error_var := Some e, once_process := False\<rparr>) else s
      | OnStdout \<Rightarrow>
          if once_stdout s then reject e (s\<lparr>error_var := Some e, once_stdout := False\<rparr>) else s)"

definition settle_window :: "(emitter \<times> error) list \<Rightarrow> settle" where
  "settle_window errs = resolve (fold (\<lambda>(src, e). on_error src e) errs settle_init)"

text \<open>
  What the environment decides for one attempt: whether \<^verbatim>\<open>child_process.spawn\<close> throws
  or returns a process, the random bytes of the identifier, and the \<^verbatim>\<open>'error'\<close> events
  emitted before the settle timer fires.
\<close>

record attempt_env =
  spawned :: "error + child_process"
  rnd :: "8 word list"
  early_errors :: "(emitter \<times> error) list"

record 'v new_params =
  command :: string
  args :: "string list"
  valueSelector :: "(jsstring \<Rightarrow> error + 'v) option"
  tryCount :: int
  retryIntervalMS :: int
  intermissionMS :: int

text \<open>The body of the \<^verbatim>\<open>try\<close> block (lines 279--312); \<open>Inl\<close> is an exception.\<close>

definition attempt :: "'v new_params \<Rightarrow> attempt_env \<Rightarrow> 'v world \<Rightarrow> 'v world \<times> (error + ref)" where
  "attempt p env w =
     (case spawned env of
        Inl e \<Rightarrow> (w, Inl e)
      | Inr process \<Rightarrow>
          (let (w', terminal) = Terminal_constructor (rnd env) process (valueSelector p) w
           in case stdout process of
                None \<Rightarrow> (w', Inl TypeError)
              | Some _ \<Rightarrow>
                  (case promise (settle_window (early_errors env)) of
                     Rejected e \<Rightarrow> (w', Inl e)
                   | _ \<Rightarrow> (w', Inr terminal))))"

text \<open>
  The retry loop (lines 277--323). The log records each call of \<^verbatim>\<open>spawn\<close> and each
  timer awaited.
\<close>

datatype action = Spawn | Sleep int

function new_loop ::
  "'v new_params \<Rightarrow> (nat \<Rightarrow> attempt_env) \<Rightarrow> nat \<Rightarrow> 'v world \<Rightarrow> action list
     \<Rightarrow> 'v world \<times> (error + ref option) \<times> action list" where
  "new_loop p envs i w log =
     (if int i < tryCount p then
        (case attempt p (envs i) w of
           (w', Inr terminal) \<Rightarrow> (w', Inr (Some terminal), log @ [Spawn, Sleep (intermissionMS p)])
         | (w', Inl e) \<Rightarrow> new_loop p envs (i + 1) w' (log @ [Spawn, Sleep (retryIntervalMS p)]))
      else (w, Inr None, log))"
  by pat_completeness auto
termination
  by (relation "measure (\<lambda>(p, envs, i, w, log). nat (tryCount p - int i))") auto

definition Terminal_new ::
  "'v new_params \<Rightarrow> (nat \<Rightarrow> attempt_env) \<Rightarrow> int \<Rightarrow> 'v world
     \<Rightarrow> 'v world \<times> (error + ref option) \<times> action list" where
  "Terminal_new p envs now w =
     (let (w', slept) = gate now w
      in new_loop p envs 0 w' (case slept of None \<Rightarrow> [] | Some sleepTime \<Rightarrow> [Sleep sleepTime]))"

section \<open>Histories of one process\<close>

text \<open>
  What can happen to the process-wide state: a controller is constructed directly or
  through \<^verbatim>\<open>Terminal.new\<close>, a chunk reaches a \<^verbatim>\<open>'data'\<close> listener, a process closes, a
  controller is asked to kill its process.
\<close>

datatype 'v event =
    Construct "8 word list" child_process "(jsstring \<Rightarrow> error + 'v) option"
  | New "'v new_params" "nat \<Rightarrow> attempt_env" int
  | Data ref chunk
  | Close ref jsval jsval
  | Kill ref string bool signal

definition update_terminal :: "ref \<Rightarrow> ('v terminal \<Rightarrow> 'v terminal) \<Rightarrow> 'v world \<Rightarrow> 'v world" where
  "update_terminal r f w = (if r < length (heap w) then w\<lparr>heap := (heap w)[r := f (heap w ! r)]\<rparr> else w)"

fun step :: "'v event \<Rightarrow> 'v world \<Rightarrow> 'v world" where
  "step (Construct bytes process sel) w = fst (Terminal_constructor bytes process sel w)"
| "step (New p envs now) w = fst (Terminal_new p envs now w)"
| "step (Data r c) w = update_terminal r (on_data c) w"
| "step (Close r code sig) w = on_close r code sig w"
| "step (Kill r platform delivered sig) w = update_terminal r (\<lambda>t. fst (kill platform delivered sig t)) w"

definition run :: "'v event list \<Rightarrow> 'v world \<Rightarrow> 'v world" where
  "run es w = fold step es w"




text \<open>
  \<^verbatim>\<open>crypto.randomBytes(16)\<close> returns sixteen bytes, in every construction of a history.
\<close>

fun sixteen_bytes :: "'v event \<Rightarrow> bool" where
  "sixteen_bytes (Construct bytes process sel) = (length bytes = 16)"
| "sixteen_bytes (New p envs now) = (\<forall>i < nat (tryCount p). length (rnd (envs i)) = 16)"
| "sixteen_bytes _ = True"

section \<open>Notions used in the statements\<close>

text \<open>
  The \<^verbatim>\<open>try\<close> block of an attempt throws when \<^verbatim>\<open>spawn\<close> throws, when the process has no
  output stream to listen on, or when an error is reported within the settle window.
\<close>

definition attempt_fails :: "attempt_env \<Rightarrow> bool" where
  "attempt_fails env =
     (case spawned env of
        Inl e \<Rightarrow> True
      | Inr process \<Rightarrow> stdout process = None \<or> early_errors env \<noteq> [])"

definition spawns :: "action list \<Rightarrow> nat" where
  "spawns log = length (filter (\<lambda>a. a = Spawn) log)"

definition ids :: "'v world \<Rightarrow> string list" where
  "ids w = map t_id (heap w)"

text \<open>
  The registry and the store agree: an entry leads to the running controller with
  that identifier, and every running controller has its entry.
\<close>

definition registry_consistent :: "'v world \<Rightarrow> bool" where
  "registry_consistent w =
     ((\<forall>i r. all w i = Some r \<longrightarrow> r < length (heap w) \<and> t_id (heap w ! r) = i \<and> t_running (heap w ! r))
      \<and> (\<forall>r < length (heap w). t_running (heap w ! r) \<longrightarrow> all w (t_id (heap w ! r)) = Some r))"

definition hex_id :: "string \<Rightarrow> bool" where
  "hex_id s = (length s = 32 \<and> set s \<subseteq> set ''0123456789abcdef'')"

text \<open>Two calls of \<^verbatim>\<open>kill\<close> in succession, with the calls each of them made.\<close>

definition kill_twice :: "string \<Rightarrow> bool \<Rightarrow> signal \<Rightarrow> 'v terminal \<Rightarrow> 'v terminal \<times> effect list \<times> effect list" where
  "kill_twice platform delivered sig t =
     (let (t1, first) = kill platform delivered sig t;
          (t2, second) = kill platform delivered sig t1
      in (t2, first, second))"

text \<open>
  An \<^verbatim>\<open>'error'\<close> event after construction runs the listeners registered for it. These are
  the \<^verbatim>\<open>once\<close> listeners of \<^verbatim>\<open>Terminal.new\<close>, which work on the variables of that call; the
  constructor registers none.
\<close>

definition emit_error :: "emitter \<Rightarrow> error \<Rightarrow> 'v terminal \<times> settle \<Rightarrow> 'v terminal \<times> settle" where
  "emit_error src e c = (fst c, on_error src e (snd c))"

section \<open>The progress selector\<close>

text \<open>
  The two regular expressions are sequences of single-character items, starred or
  not. \<open>rmatch\<close> matches a sequence at the start of a text and returns the rest of the
  text for every way to match, in the order in which a backtracking matcher with
  greedy quantifiers tries them. Both expressions start with \<^verbatim>\<open>^\<close> and carry only the
  flag \<^verbatim>\<open>i\<close>, so \<^verbatim>\<open>exec\<close> matches at index 0 or not at all.
\<close>

datatype rx = One "code_unit \<Rightarrow> bool" | Star "code_unit \<Rightarrow> bool" | Plus "code_unit \<Rightarrow> bool"

fun rmatch :: "rx list \<Rightarrow> jsstring \<Rightarrow> jsstring list" where
  "rmatch [] s = [s]"
| "rmatch (One P # items) [] = []"
| "rmatch (One P # items) (c # cs) = (if P c then rmatch items cs else [])"
| "rmatch (Star P # items) [] = rmatch items []"
| "rmatch (Star P # items) (c # cs) =
     (if P c then rmatch (Star P # items) cs else []) @ rmatch items (c # cs)"
| "rmatch (Plus P # items) [] = []"
| "rmatch (Plus P # items) (c # cs) = (if P c then rmatch (Star P # items) cs else [])"

text \<open>
  \<^verbatim>\<open>\s\<close> is white space or a line terminator; \<^verbatim>\<open>.\<close> is anything but a line terminator;
  under the flag \<^verbatim>\<open>i\<close> an ASCII pattern character matches itself in either case and no
  character outside ASCII.
\<close>

definition line_terminator :: "code_unit \<Rightarrow> bool" where
  "line_terminator u = (u = 0x0A \<or> u = 0x0D \<or> u = 0x2028 \<or> u = 0x2029)"

definition white_space :: "code_unit \<Rightarrow> bool" where
  "white_space u =
     (u = 0x09 \<or> u = 0x0B \<or> u = 0x0C \<or> u = 0x20 \<or> u = 0xA0 \<or> u = 0x1680
      \<or> (0x2000 \<le> u \<and> u \<le> 0x200A) \<or> u = 0x202F \<or> u = 0x205F \<or> u = 0x3000 \<or> u = 0xFEFF
      \<or> line_terminator u)"

definition dot :: "code_unit \<Rightarrow> bool" where
  "dot u = (\<not> line_terminator u)"

definition canonicalize :: "code_unit \<Rightarrow> code_unit" where
  "canonicalize u = (if 0x61 \<le> u \<and> u \<le> 0x7A then u - 0x20 else u)"

definition lit :: "string \<Rightarrow> rx list" where
  "lit s = map (\<lambda>c. One (\<lambda>u. canonicalize u = canonicalize (of_char c))) s"

text \<open>\<^verbatim>\<open>/^\[download\]\s*.+\s*has already been downloaded/i\<close>\<close>

definition ALREADY_DOWNLOADED_RE :: "rx list" where
  "ALREADY_DOWNLOADED_RE =
     lit ''[download]'' @ [Star white_space, Plus dot, Star white_space]
       @ lit ''has already been downloaded''"

text \<open>\<^verbatim>\<open>/^\[progress\]\s+(.+)/i\<close>: what precedes the group, and the group.\<close>

definition DOWNLOAD_PROGRESS_RE :: "rx list \<times> rx list" where
  "DOWNLOAD_PROGRESS_RE = (lit ''[progress]'' @ [Plus white_space], [Plus dot])"

definition rx_test :: "rx list \<Rightarrow> jsstring \<Rightarrow> bool" where
  "rx_test r text = (rmatch r text \<noteq> [])"

text \<open>
  \<^verbatim>\<open>exec\<close> for an expression that ends with its only group: the text captured by the
  group in the first match found.
\<close>

definition rx_exec :: "rx list \<times> rx list \<Rightarrow> jsstring \<Rightarrow> jsstring option" where
  "rx_exec r text =
     (case concat (map (\<lambda>s. map (\<lambda>s'. take (length s - length s') s) (rmatch (snd r) s))
                       (rmatch (fst r) text)) of
        [] \<Rightarrow> None
      | g # _ \<Rightarrow> Some g)"

text \<open>
  \<^verbatim>\<open>downloadValueSelector\<close> (lines 184--202) returns \<^verbatim>\<open>{stop: true}\<close>, \<^verbatim>\<open>null\<close> or
  \<^verbatim>\<open>{data: JSON.parse(progress[1])}\<close>. \<open>JSON_parse\<close> is the built-in parser; \<open>None\<close> is
  its \<^verbatim>\<open>SyntaxError\<close>.
\<close>

datatype 'j selected = StopObj | DataObj 'j | NullVal

definition downloadValueSelector :: "(jsstring \<Rightarrow> 'j option) \<Rightarrow> jsstring \<Rightarrow> error + 'j selected" where
  "downloadValueSelector JSON_parse text =
     (if rx_test ALREADY_DOWNLOADED_RE text then Inr StopObj
      else case rx_exec DOWNLOAD_PROGRESS_RE text of
             None \<Rightarrow> Inr NullVal
           | Some payload \<Rightarrow>
               (case JSON_parse payload of
                  None \<Rightarrow> Inl SyntaxError
                | Some j \<Rightarrow> Inr (DataObj j)))"

section \<open>The built-in JSON parser\<close>

text \<open>
  \<^verbatim>\<open>JSON.parse\<close> belongs to the language, not to the repository; the selector above takes
  it as a parameter. For the evaluation of concrete lines here is a parser of the JSON
  grammar (ECMA-404). A number is kept as it is written and an object as the list of
  its members.
\<close>

datatype json =
    JNull | JBool bool | JNumber jsstring | JString jsstring
  | JArray "json list" | JObject "(jsstring \<times> json) list"

definition json_ws :: "code_unit \<Rightarrow> bool" where
  "json_ws u = (u = 0x09 \<or> u = 0x0A \<or> u = 0x0D \<or> u = 0x20)"

definition skip_ws :: "jsstring \<Rightarrow> jsstring" where
  "skip_ws s = dropWhile json_ws s"

definition digit :: "code_unit \<Rightarrow> bool" where
  "digit u = (0x30 \<le> u \<and> u \<le> 0x39)"

definition hex_value :: "code_unit \<Rightarrow> nat option" where
  "hex_value u =
     (if digit u then Some (u - 0x30)
      else if 0x41 \<le> u \<and> u \<le> 0x46 then Some (u - 0x37)
      else if 0x61 \<le> u \<and> u \<le> 0x66 then Some (u - 0x57)
      else None)"

definition escape :: "code_unit \<Rightarrow> code_unit option" where
  "escape u =
     (if u = 0x22 \<or> u = 0x5C \<or> u = 0x2F then Some u
      else if u = 0x62 then Some 0x08
      else if u = 0x66 then Some 0x0C
      else if u = 0x6E then Some 0x0A
      else if u = 0x72 then Some 0x0D
      else if u = 0x74 then Some 0x09
      else None)"

definition consumed :: "'a \<Rightarrow> ('a list \<times> 'b) option \<Rightarrow> ('a list \<times> 'b) option" where
  "consumed x r = (case r of None \<Rightarrow> None | Some (xs, rest) \<Rightarrow> Some (x # xs, rest))"

datatype in_string = Plain | Escaped | Hex nat nat

fun lex_string :: "in_string \<Rightarrow> jsstring \<Rightarrow> (jsstring \<times> jsstring) option" where
  "lex_string st [] = None"
| "lex_string Plain (c # cs) =
     (if c = 0x22 then Some ([], cs)
      else if c = 0x5C then lex_string Escaped cs
      else if c < 0x20 then None
      else consumed c (lex_string Plain cs))"
| "lex_string Escaped (c # cs) =
     (if c = 0x75 then lex_string (Hex 4 0) cs
      else case escape c of
             None \<Rightarrow> None
           | Some v \<Rightarrow> consumed v (lex_string Plain cs))"
| "lex_string (Hex k acc) (c # cs) =
     (case hex_value c of
        None \<Rightarrow> None
      | Some d \<Rightarrow>
          if k \<le> 1 then consumed (acc * 16 + d) (lex_string Plain cs)
          else lex_string (Hex (k - 1) (acc * 16 + d)) cs)"

definition lex_digits :: "jsstring \<Rightarrow> (jsstring \<times> jsstring) option" where
  "lex_digits s = (if takeWhile digit s = [] then None else Some (takeWhile digit s, dropWhile digit s))"

definition lex_int :: "jsstring \<Rightarrow> (jsstring \<times> jsstring) option" where
  "lex_int s =
     (case s of
        [] \<Rightarrow> None
      | c # r \<Rightarrow> if c = 0x30 then Some ([c], r) else lex_digits s)"

definition lex_frac :: "jsstring \<Rightarrow> (jsstring \<times> jsstring) option" where
  "lex_frac s =
     (case s of
        [] \<Rightarrow> Some ([], s)
      | c # r \<Rightarrow> if c = 0x2E then consumed c (lex_digits r) else Some ([], s))"

definition lex_exp :: "jsstring \<Rightarrow> (jsstring \<times> jsstring) option" where
  "lex_exp s =
     (case s of
        [] \<Rightarrow> Some ([], s)
      | c # r \<Rightarrow>
          if c = 0x45 \<or> c = 0x65 then
            (case r of
               [] \<Rightarrow> None
             | g # r' \<Rightarrow>
                 if g = 0x2B \<or> g = 0x2D then consumed c (consumed g (lex_digits r'))
                 else consumed c (lex_digits r))
          else Some ([], s))"

definition lex_number :: "jsstring \<Rightarrow> (jsstring \<times> jsstring) option" where
  "lex_number s =
     (let (sign, s0) = (case s of [] \<Rightarrow> ([], s) | c # r \<Rightarrow> if c = 0x2D then ([c], r) else ([], s))
      in case lex_int s0 of
           None \<Rightarrow> None
         | Some (i, s1) \<Rightarrow>
             (case lex_frac s1 of
                None \<Rightarrow> None
              | Some (f, s2) \<Rightarrow>
                  (case lex_exp s2 of
                     None \<Rightarrow> None
                   | Some (e, s3) \<Rightarrow> Some (sign @ i @ f @ e, s3))))"

definition lex_word :: "string \<Rightarrow> json \<Rightarrow> jsstring \<Rightarrow> (json \<times> jsstring) option" where
  "lex_word word v s = (if take (length word) s = js word then Some (v, drop (length word) s) else None)"

text \<open>
  The three mutually recursive parsers take a list as fuel and use up one element of
  it in each call. Between two calls at least one character is read or one more call
  is made that reads one, so twice the length of the text is enough.
\<close>

fun parse_value :: "unit list \<Rightarrow> jsstring \<Rightarrow> (json \<times> jsstring) option"
  and parse_elements :: "unit list \<Rightarrow> jsstring \<Rightarrow> (json list \<times> jsstring) option"
  and parse_members :: "unit list \<Rightarrow> jsstring \<Rightarrow> ((jsstring \<times> json) list \<times> jsstring) option" where
  "parse_value [] s = None"
| "parse_value (u # n) s =
     (case skip_ws s of
        [] \<Rightarrow> None
      | c # r \<Rightarrow>
          if c = 0x7B then
            (case skip_ws r of
               [] \<Rightarrow> None
             | d # r' \<Rightarrow>
                 if d = 0x7D then Some (JObject [], r')
                 else map_option (\<lambda>(ms, rest). (JObject ms, rest)) (parse_members n r))
          else if c = 0x5B then
            (case skip_ws r of
               [] \<Rightarrow> None
             | d # r' \<Rightarrow>
                 if d = 0x5D then Some (JArray [], r')
                 else map_option (\<lambda>(vs, rest). (JArray vs, rest)) (parse_elements n r))
          else if c = 0x22 then map_option (\<lambda>(str, rest). (JString str, rest)) (lex_string Plain r)
          else if c = 0x2D \<or> digit c then
            map_option (\<lambda>(num, rest). (JNumber num, rest)) (lex_number (c # r))
          else if c = 0x6E then lex_word ''null'' JNull (c # r)
          else if c = 0x74 then lex_word ''true'' (JBool True) (c # r)
          else if c = 0x66 then lex_word ''false'' (JBool False) (c # r)
          else None)"
| "parse_elements [] s = None"
| "parse_elements (u # n) s =
     (case parse_value n s of
        None \<Rightarrow> None
      | Some (v, r) \<Rightarrow>
          (case skip_ws r of
             [] \<Rightarrow> None
           | c # r' \<Rightarrow>
               if c = 0x2C then consumed v (parse_elements n r')
               else if c = 0x5D then Some ([v], r')
               else None))"
| "parse_members [] s = None"
| "parse_members (u # n) s =
     (case skip_ws s of
        [] \<Rightarrow> None
      | q # r \<Rightarrow>
          if q = 0x22 then
            (case lex_string Plain r of
               None \<Rightarrow> None
             | Some (key, r1) \<Rightarrow>
                 (case skip_ws r1 of
                    [] \<Rightarrow> None
                  | colon # r2 \<Rightarrow>
                      if colon = 0x3A then
                        (case parse_value n r2 of
                           None \<Rightarrow> None
                         | Some (v, r3) \<Rightarrow>
                             (case skip_ws r3 of
                                [] \<Rightarrow> None
                              | c # r4 \<Rightarrow>
                                  if c = 0x2C then consumed (key, v) (parse_members n r4)
                                  else if c = 0x7D then Some ([(key, v)], r4)
                                  else None))
                      else None))
          else None)"

definition JSON_parse :: "jsstring \<Rightarrow> json option" where
  "JSON_parse text =
     (case parse_value (map (\<lambda>c. ()) (text @ text) @ [(), ()]) text of
        None \<Rightarrow> None
      | Some (v, rest) \<Rightarrow> if skip_ws rest = [] then Some v else None)"

section \<open>Inputs used in the examples\<close>

definition example_bytes :: "8 word list" where
  "example_bytes = [0x3a, 0x7f, 0x00, 0xc4, 0x19, 0xe2, 0x5b, 0x80, 0x01, 0xff, 0x6d, 0x92, 0x4e, 0xb7, 0x28, 0xd5]"

definition other_bytes :: "8 word list" where
  "other_bytes = [0x00, 0x11, 0x22, 0x33, 0x44, 0x55, 0x66, 0x77, 0x88, 0x99, 0xaa, 0xbb, 0xcc, 0xdd, 0xee, 0xff]"

definition example_process :: child_process where
  "example_process = \<lparr>pid = Some 4242, killed = False, stdout = Some []\<rparr>"

definition plain_terminal :: "unit terminal" where
  "plain_terminal = Terminal_init example_bytes example_process None"

definition download_terminal :: "json selected terminal" where
  "download_terminal = Terminal_init example_bytes example_process (Some (downloadValueSelector JSON_parse))"

definition already_line :: jsstring where
  "already_line = js ''[download] f has already been downloaded''"

definition progress_line :: jsstring where
  "progress_line = js ''[progress] {}''"

definition broken_line :: jsstring where
  "broken_line = js ''[progress] x''"

definition other_line :: jsstring where
  "other_line = js ''[youtube] Extracting URL''"

definition failing_env :: attempt_env where
  "failing_env = \<lparr>spawned = Inr example_process, rnd = example_bytes,
                    early_errors = [(OnProcess, SpawnError ''ENOENT'')]\<rparr>"

definition settled_env :: attempt_env where
  "settled_env = \<lparr>spawned = Inr example_process, rnd = other_bytes, early_errors = []\<rparr>"

definition example_params :: "unit new_params" where
  "example_params = \<lparr>command = ''yt-dlp'', args = [''--version''], valueSelector = None,
                       tryCount = 2, retryIntervalMS = 500, intermissionMS = 1000\<rparr>"

definition never_settles :: "nat \<Rightarrow> attempt_env" where
  "never_settles i = failing_env"

definition second_settles :: "nat \<Rightarrow> attempt_env" where
  "second_settles i = (if i = 0 then failing_env else settled_env)"


definition two_then_close :: "unit event list" where
  "two_then_close = [Construct example_bytes example_process None,
                     Construct other_bytes example_process None,
                     Close 0 (Num 0) Null]"

definition retry_then_data :: "unit event list" where
  "retry_then_data = [Data 1 (js ''x''), Kill 0 ''linux'' True ''SIGTERM'']"

section \<open>Proofs\<close>

declare new_loop.simps [simp del]

subsection \<open>The settle window and the retry loop\<close>

lemma promise_reject_stays: "promise s \<noteq> Pending \<Longrightarrow> promise (on_error src e s) = promise s"
  by (cases src) (simp_all add: on_error_def reject_def)

lemma promise_fold_stays:
  "promise s \<noteq> Pending \<Longrightarrow> promise (fold (\<lambda>(src, e). on_error src e) errs s) = promise s"
  by (induction errs arbitrary: s) (auto simp: promise_reject_stays)

lemma settle_window_Nil: "promise (settle_window []) = Resolved"
  by (simp add: settle_window_def resolve_def settle_init_def)

lemma settle_window_Cons: "promise (settle_window ((src, e) # errs)) = Rejected e"
proof -
  have first: "promise (on_error src e settle_init) = Rejected e"
    by (cases src) (simp_all add: on_error_def reject_def settle_init_def)
  then have "promise (fold (\<lambda>(src, e). on_error src e) errs (on_error src e settle_init)) = Rejected e"
    by (simp add: promise_fold_stays)
  then show ?thesis
    by (simp add: settle_window_def resolve_def)
qed

lemma settle_resolved_iff: "promise (settle_window errs) = Resolved \<longleftrightarrow> errs = []"
proof (cases errs)
  case Nil
  then show ?thesis by (simp add: settle_window_Nil)
next
  case (Cons a errs')
  then show ?thesis by (cases a) (simp add: settle_window_Cons)
qed

lemma attempt_fails_throws: "attempt_fails env \<Longrightarrow> \<exists>w' e. attempt p env w = (w', Inl e)"
  by (cases "early_errors env")
     (auto simp: attempt_fails_def attempt_def Terminal_constructor_def Let_def settle_window_Nil
         settle_window_Cons split: sum.splits option.splits prod.splits)

lemma attempt_succeeds:
  "\<not> attempt_fails env \<Longrightarrow> \<exists>w'. attempt p env w = (w', Inr (length (heap w)))"
  by (auto simp: attempt_fails_def attempt_def Terminal_constructor_def Let_def settle_window_Nil
       split: sum.splits option.splits prod.splits)

lemma new_loop_exhausted:
  "\<forall>j. i \<le> j \<and> j < nat (tryCount p) \<longrightarrow> attempt_fails (envs j) \<Longrightarrow>
   snd (new_loop p envs i w log) =
     (Inr None, log @ concat (replicate (nat (tryCount p) - i) [Spawn, Sleep (retryIntervalMS p)]))"
proof (induction p envs i w log rule: new_loop.induct)
  case (1 p envs i w log)
  show ?case
  proof (cases "int i < tryCount p")
    case False
    then show ?thesis by (simp add: new_loop.simps)
  next
    case True
    then have "i < nat (tryCount p)" by simp
    with "1.prems" have "attempt_fails (envs i)" by simp
    then obtain w' e where att: "attempt p (envs i) w = (w', Inl e)"
      using attempt_fails_throws by blast
    have "snd (new_loop p envs (i + 1) w' (log @ [Spawn, Sleep (retryIntervalMS p)])) =
       (Inr None, (log @ [Spawn, Sleep (retryIntervalMS p)]) @
          concat (replicate (nat (tryCount p) - (i + 1)) [Spawn, Sleep (retryIntervalMS p)]))"
      using "1.IH"[OF True att[symmetric] refl] "1.prems" by simp
    moreover have "nat (tryCount p) - i = Suc (nat (tryCount p) - (i + 1))"
      using \<open>i < nat (tryCount p)\<close> by simp
    ultimately show ?thesis
      using True att by (simp add: new_loop.simps[of p envs i])
  qed
qed

lemma spawns_append: "spawns (xs @ ys) = spawns xs + spawns ys"
  by (simp add: spawns_def)

lemma new_loop_spawns:
  "spawns (snd (snd (new_loop p envs i w log))) \<le> spawns log + (nat (tryCount p) - i)"
proof (induction p envs i w log rule: new_loop.induct)
  case (1 p envs i w log)
  show ?case
  proof (cases "int i < tryCount p")
    case False
    then show ?thesis by (simp add: new_loop.simps)
  next
    case True
    then have lt: "i < nat (tryCount p)" by simp
    obtain w' res where att: "attempt p (envs i) w = (w', res)" by (cases "attempt p (envs i) w")
    show ?thesis
    proof (cases res)
      case (Inr terminal)
      with True att lt show ?thesis
        by (simp add: new_loop.simps[of p envs i] spawns_append) (simp add: spawns_def)
    next
      case (Inl e)
      have "spawns (snd (snd (new_loop p envs (i + 1) w' (log @ [Spawn, Sleep (retryIntervalMS p)]))))
              \<le> spawns (log @ [Spawn, Sleep (retryIntervalMS p)]) + (nat (tryCount p) - (i + 1))"
        using "1.IH"[OF True _ refl, of w' e] att Inl by simp
      also have "\<dots> = spawns log + (nat (tryCount p) - i)"
        using lt by (simp add: spawns_append) (simp add: spawns_def)
      finally show ?thesis
        using True att Inl by (simp add: new_loop.simps[of p envs i])
    qed
  qed
qed

text \<open>
  Claim C3: \<^verbatim>\<open>Terminal.new\<close> calls \<^verbatim>\<open>spawn\<close> at most \<^verbatim>\<open>tryCount\<close> times; when every one of
  these attempts fails, it returns \<^verbatim>\<open>null\<close> and throws nothing, having made exactly
  \<^verbatim>\<open>tryCount\<close> attempts with a wait of \<^verbatim>\<open>retryIntervalMS\<close> after each.
\<close>

theorem Terminal_new_exhausted:
  "spawns (snd (snd (Terminal_new p envs now w))) \<le> nat (tryCount p)
   \<and> ((\<forall>i < nat (tryCount p). attempt_fails (envs i)) \<longrightarrow>
        snd (Terminal_new p envs now w) =
          (Inr None,
           (case snd (gate now w) of None \<Rightarrow> [] | Some sleepTime \<Rightarrow> [Sleep sleepTime])
             @ concat (replicate (nat (tryCount p)) [Spawn, Sleep (retryIntervalMS p)])))"
proof -
  obtain w' slept where g: "gate now w = (w', slept)" by (cases "gate now w")
  have "spawns (case slept of None \<Rightarrow> [] | Some sleepTime \<Rightarrow> [Sleep sleepTime]) = 0"
    by (simp add: spawns_def split: option.splits)
  then have a: "spawns (snd (snd (Terminal_new p envs now w))) \<le> nat (tryCount p)"
    using new_loop_spawns[of p envs 0 w' "case slept of None \<Rightarrow> [] | Some sleepTime \<Rightarrow> [Sleep sleepTime]"] g
    by (simp add: Terminal_new_def)
  have b: "(\<forall>i < nat (tryCount p). attempt_fails (envs i)) \<Longrightarrow>
        snd (Terminal_new p envs now w) =
          (Inr None,
           (case snd (gate now w) of None \<Rightarrow> [] | Some sleepTime \<Rightarrow> [Sleep sleepTime])
             @ concat (replicate (nat (tryCount p)) [Spawn, Sleep (retryIntervalMS p)]))"
    using new_loop_exhausted[of 0 p envs w' "case slept of None \<Rightarrow> [] | Some sleepTime \<Rightarrow> [Sleep sleepTime]"] g
    by (simp add: Terminal_new_def)
  from a b show ?thesis by blast
qed

text \<open>Two attempts that both report \<^verbatim>\<open>ENOENT\<close> within the settle window.\<close>

theorem Terminal_new_exhausted_witness:
  "nat (tryCount example_params) = 2
   \<and> attempt_fails (never_settles 0) \<and> attempt_fails (never_settles 1)
   \<and> snd (Terminal_new example_params never_settles 1000 initial_world)
       = (Inr None, [Spawn, Sleep 500, Spawn, Sleep 500])"
  using Terminal_new_exhausted[of example_params never_settles 1000 initial_world]
  by (simp add: example_params_def never_settles_def failing_env_def attempt_fails_def
        example_process_def gate_def initial_world_def numeral_2_eq_2)

subsection \<open>The gate\<close>
















subsection \<open>Identifiers\<close>

lemma length_toString_hex: "length (toString_hex bs) = 2 * length bs"
  by (induction bs) (simp_all add: toString_hex_def byte_hex_def)

lemma hex_digit_in: "hex_digit n \<in> set ''0123456789abcdef''"
proof -
  have "n mod 16 < length ''0123456789abcdef''" by simp
  then show ?thesis unfolding hex_digit_def by (rule nth_mem)
qed

lemma set_toString_hex: "set (toString_hex bs) \<subseteq> set ''0123456789abcdef''"
proof (induction bs)
  case Nil
  then show ?case by (simp add: toString_hex_def)
next
  case (Cons b bs)
  have "set (byte_hex b) \<subseteq> set ''0123456789abcdef''"
    using hex_digit_in[of "unat b div 16"] hex_digit_in[of "unat b mod 16"]
    unfolding byte_hex_def by simp
  with Cons show ?case by (simp add: toString_hex_def)
qed

lemma hex_id_toString_hex: "length bs = 16 \<Longrightarrow> hex_id (toString_hex bs)"
  using set_toString_hex[of bs] by (simp add: hex_id_def length_toString_hex)

lemma hex_id_not_inherited: "hex_id s \<Longrightarrow> s \<notin> set Object_prototype_keys"
  by (auto simp: hex_id_def Object_prototype_keys_def)

lemma example_id: "toString_hex example_bytes = ''3a7f00c419e25b8001ff6d924eb728d5''"
  by (simp add: toString_hex_def example_bytes_def byte_hex_def hex_digit_def)

lemma other_id: "toString_hex other_bytes = ''00112233445566778899aabbccddeeff''"
  by (simp add: toString_hex_def other_bytes_def byte_hex_def hex_digit_def)

lemma ids_differ: "toString_hex example_bytes \<noteq> toString_hex other_bytes"
  by (simp add: example_id other_id)

lemma sixteen: "length example_bytes = 16" "length other_bytes = 16"
  by (simp_all add: example_bytes_def other_bytes_def)

subsection \<open>The store only grows\<close>

lemma heap_constructor:
  "heap (fst (Terminal_constructor bytes process sel w)) = heap w @ [Terminal_init bytes process sel]"
  by (simp add: Terminal_constructor_def Let_def)

lemma heap_attempt:
  "heap (fst (attempt p env w)) = heap w
   \<or> (\<exists>process. heap (fst (attempt p env w)) = heap w @ [Terminal_init (rnd env) process (valueSelector p)])"
  by (auto simp: attempt_def Terminal_constructor_def Let_def split: sum.splits option.splits promise.splits)

lemma heap_new_loop: "\<exists>extra. heap (fst (new_loop p envs i w log)) = heap w @ extra"
proof (induction p envs i w log rule: new_loop.induct)
  case (1 p envs i w log)
  show ?case
  proof (cases "int i < tryCount p")
    case False
    then show ?thesis by (simp add: new_loop.simps)
  next
    case True
    obtain w' res where att: "attempt p (envs i) w = (w', res)" by (cases "attempt p (envs i) w")
    obtain x where w': "heap w' = heap w @ x"
      using heap_attempt[of p "envs i" w] att by auto
    show ?thesis
    proof (cases res)
      case (Inr terminal)
      with True att w' show ?thesis by (simp add: new_loop.simps[of p envs i])
    next
      case (Inl e)
      with True att w' "1.IH"[OF True _ refl, of w' e] show ?thesis
        by (auto simp: new_loop.simps[of p envs i])
    qed
  qed
qed

lemma heap_gate: "heap (fst (gate now w)) = heap w \<and> all (fst (gate now w)) = all w"
  by (simp add: gate_def Let_def)

lemma heap_Terminal_new: "\<exists>extra. heap (fst (Terminal_new p envs now w)) = heap w @ extra"
proof -
  obtain w' slept where g: "gate now w = (w', slept)" by (cases "gate now w")
  then have "heap w' = heap w" using heap_gate[of now w] by simp
  then show ?thesis using g heap_new_loop[of p envs 0 w'] by (simp add: Terminal_new_def)
qed

lemma ids_update: "(\<And>t. t_id (f t) = t_id t) \<Longrightarrow> ids (update_terminal r f w) = ids w"
  by (simp add: ids_def update_terminal_def map_update list_update_same_conv)

lemma t_id_kill: "t_id (fst (kill platform delivered sig t)) = t_id t"
  by (simp add: kill_def split: option.splits)

lemma t_running_kill: "t_running (fst (kill platform delivered sig t)) = t_running t"
  by (simp add: kill_def split: option.splits)

lemma t_id_on_data: "t_id (on_data c t) = t_id t"
  by (simp add: on_data_def split: option.splits)

lemma t_running_on_data: "t_running (on_data c t) = t_running t"
  by (simp add: on_data_def split: option.splits)

lemma ids_on_close: "ids (on_close r code sig w) = ids w"
  by (simp add: ids_def on_close_def on_close_terminal_def map_update list_update_same_conv)

lemma ids_step: "\<exists>extra. ids (step e w) = ids w @ extra"
proof (cases e)
  case (Construct bytes process sel)
  then show ?thesis by (simp add: ids_def heap_constructor)
next
  case (New p envs now)
  then show ?thesis using heap_Terminal_new[of p envs now w] by (auto simp: ids_def)
next
  case (Data r c)
  then show ?thesis by (simp add: ids_update t_id_on_data)
next
  case (Close r code sig)
  then show ?thesis by (simp add: ids_on_close)
next
  case (Kill r platform delivered sig)
  then show ?thesis by (simp add: ids_update t_id_kill)
qed

lemma ids_run: "\<exists>extra. ids (run es w) = ids w @ extra"
proof (induction es arbitrary: w)
  case Nil
  then show ?case by (simp add: run_def)
next
  case (Cons e es)
  obtain x where "ids (step e w) = ids w @ x" using ids_step by blast
  moreover obtain y where "ids (run es (step e w)) = ids (step e w) @ y" using Cons.IH by blast
  ultimately show ?case by (simp add: run_def)
qed

subsection \<open>The registry follows the store\<close>

lemma consistent_constructor:
  assumes "registry_consistent w" and "toString_hex bytes \<notin> set (ids w)"
  shows "registry_consistent (fst (Terminal_constructor bytes process sel w))"
proof -
  let ?t = "Terminal_init bytes process sel"
  let ?w = "fst (Terminal_constructor bytes process sel w)"
  have h: "heap ?w = heap w @ [?t]" and a: "all ?w = (all w)(toString_hex bytes \<mapsto> length (heap w))"
    by (simp_all add: Terminal_constructor_def Let_def Terminal_init_def)
  have old: "r < length (heap w) \<Longrightarrow> heap ?w ! r = heap w ! r" for r
    by (simp add: h nth_append)
  have new: "heap ?w ! length (heap w) = ?t" by (simp add: h)
  have fresh: "t_id (heap w ! r) \<noteq> toString_hex bytes" if "r < length (heap w)" for r
  proof -
    from that have "t_id (heap w ! r) \<in> set (ids w)" by (simp add: ids_def)
    with assms(2) show ?thesis by auto
  qed
  have one: "r < length (heap ?w) \<and> t_id (heap ?w ! r) = i \<and> t_running (heap ?w ! r)"
    if "all ?w i = Some r" for i r
  proof (cases "i = toString_hex bytes")
    case True
    with that a have "r = length (heap w)" by simp
    then show ?thesis using True new h by (simp add: Terminal_init_def)
  next
    case False
    with that a have "all w i = Some r" by simp
    then have "r < length (heap w) \<and> t_id (heap w ! r) = i \<and> t_running (heap w ! r)"
      using assms(1) by (simp add: registry_consistent_def)
    then show ?thesis using old h by simp
  qed
  have two: "all ?w (t_id (heap ?w ! r)) = Some r"
    if "r < length (heap ?w)" "t_running (heap ?w ! r)" for r
  proof (cases "r = length (heap w)")
    case True
    then show ?thesis using new a by (simp add: Terminal_init_def)
  next
    case False
    with that(1) h have lt: "r < length (heap w)" by simp
    then have "all w (t_id (heap w ! r)) = Some r"
      using assms(1) that(2) old by (simp add: registry_consistent_def)
    then show ?thesis using a old[OF lt] fresh[OF lt] by simp
  qed
  from one two show ?thesis unfolding registry_consistent_def by blast
qed

lemma consistent_update:
  assumes "registry_consistent w" and "\<And>t. t_id (f t) = t_id t" and "\<And>t. t_running (f t) = t_running t"
  shows "registry_consistent (update_terminal r f w)"
proof (cases "r < length (heap w)")
  case False
  then show ?thesis using assms(1) by (simp add: update_terminal_def)
next
  case True
  let ?w = "update_terminal r f w"
  have h: "heap ?w = (heap w)[r := f (heap w ! r)]" and a: "all ?w = all w"
    using True by (simp_all add: update_terminal_def)
  have same: "q < length (heap w) \<Longrightarrow>
      t_id (heap ?w ! q) = t_id (heap w ! q) \<and> t_running (heap ?w ! q) = t_running (heap w ! q)" for q
    using assms(2,3) by (cases "q = r") (simp_all add: h)
  show ?thesis
    using assms(1) same unfolding registry_consistent_def a by (simp add: h)
qed

lemma consistent_on_close:
  assumes "registry_consistent w" and "distinct (ids w)"
  shows "registry_consistent (on_close r code sig w)"
proof (cases "r < length (heap w)")
  case False
  then show ?thesis using assms(1) by (simp add: on_close_def)
next
  case True
  let ?w = "on_close r code sig w"
  have h: "heap ?w = (heap w)[r := on_close_terminal code sig (heap w ! r)]"
    and a: "all ?w = (all w)(t_id (heap w ! r) := None)"
    using True by (simp_all add: on_close_def)
  have other: "q < length (heap w) \<Longrightarrow> q \<noteq> r \<Longrightarrow> heap ?w ! q = heap w ! q" for q
    by (simp add: h)
  have closed: "\<not> t_running (heap ?w ! r)"
    using True by (simp add: h on_close_terminal_def)
  have inj: "q < length (heap w) \<Longrightarrow> t_id (heap w ! q) = t_id (heap w ! r) \<Longrightarrow> q = r" for q
    using assms(2) True nth_eq_iff_index_eq[of "ids w" q r] by (simp add: ids_def)
  have one: "q < length (heap ?w) \<and> t_id (heap ?w ! q) = i \<and> t_running (heap ?w ! q)"
    if "all ?w i = Some q" for i q
  proof -
    from that a have ne: "i \<noteq> t_id (heap w ! r)" and "all w i = Some q"
      by (auto split: if_splits)
    then have q: "q < length (heap w) \<and> t_id (heap w ! q) = i \<and> t_running (heap w ! q)"
      using assms(1) by (simp add: registry_consistent_def)
    with ne have "q \<noteq> r" by auto
    then show ?thesis using q other h by simp
  qed
  have two: "all ?w (t_id (heap ?w ! q)) = Some q"
    if "q < length (heap ?w)" "t_running (heap ?w ! q)" for q
  proof -
    from that closed have qr: "q \<noteq> r" by auto
    from that(1) h have lt: "q < length (heap w)" by simp
    then have "all w (t_id (heap w ! q)) = Some q"
      using assms(1) that(2) other[OF lt qr] by (simp add: registry_consistent_def)
    moreover have "t_id (heap w ! q) \<noteq> t_id (heap w ! r)" using inj[OF lt] qr by auto
    ultimately show ?thesis using a other[OF lt qr] by simp
  qed
  from one two show ?thesis unfolding registry_consistent_def by blast
qed

lemma all_attempt_unchanged:
  "heap (fst (attempt p env w)) = heap w \<Longrightarrow> fst (attempt p env w) = w"
  by (auto simp: attempt_def Terminal_constructor_def Let_def split: sum.splits option.splits promise.splits)

lemma attempt_constructs:
  "heap (fst (attempt p env w)) \<noteq> heap w \<Longrightarrow>
   \<exists>process. fst (attempt p env w) = fst (Terminal_constructor (rnd env) process (valueSelector p) w)"
proof (cases "spawned env")
  case (Inl e)
  assume "heap (fst (attempt p env w)) \<noteq> heap w"
  with Inl show ?thesis by (simp add: attempt_def)
next
  case (Inr process)
  then have "fst (attempt p env w) = fst (Terminal_constructor (rnd env) process (valueSelector p) w)"
    by (simp add: attempt_def Let_def split: option.splits promise.splits prod.splits)
  then show ?thesis by blast
qed

lemma consistent_attempt:
  assumes "registry_consistent w" and "distinct (ids (fst (attempt p env w)))"
  shows "registry_consistent (fst (attempt p env w))"
proof (cases "heap (fst (attempt p env w)) = heap w")
  case True
  then show ?thesis using assms(1) all_attempt_unchanged by metis
next
  case False
  then obtain process where c: "fst (attempt p env w) = fst (Terminal_constructor (rnd env) process (valueSelector p) w)"
    using attempt_constructs by blast
  have "ids (fst (attempt p env w)) = ids w @ [toString_hex (rnd env)]"
    by (simp add: c ids_def heap_constructor Terminal_init_def)
  with assms(2) have "toString_hex (rnd env) \<notin> set (ids w)" by simp
  then show ?thesis using consistent_constructor[OF assms(1)] c by simp
qed

lemma distinct_earlier: "ids w' = ids w @ extra \<Longrightarrow> distinct (ids w') \<Longrightarrow> distinct (ids w)"
  by simp

lemma consistent_new_loop:
  "registry_consistent w \<Longrightarrow> distinct (ids (fst (new_loop p envs i w log))) \<Longrightarrow>
   registry_consistent (fst (new_loop p envs i w log))"
proof (induction p envs i w log rule: new_loop.induct)
  case (1 p envs i w log)
  show ?case
  proof (cases "int i < tryCount p")
    case False
    then show ?thesis using "1.prems" by (simp add: new_loop.simps)
  next
    case True
    obtain w' res where att: "attempt p (envs i) w = (w', res)" by (cases "attempt p (envs i) w")
    show ?thesis
    proof (cases res)
      case (Inr terminal)
      then have eq: "fst (new_loop p envs i w log) = w'"
        using True att by (simp add: new_loop.simps[of p envs i])
      then show ?thesis using consistent_attempt[of w p "envs i"] "1.prems" att by simp
    next
      case (Inl e)
      let ?next = "new_loop p envs (i + 1) w' (log @ [Spawn, Sleep (retryIntervalMS p)])"
      have eq: "fst (new_loop p envs i w log) = fst ?next"
        using True att Inl by (simp add: new_loop.simps[of p envs i])
      obtain extra where "heap (fst ?next) = heap w' @ extra" using heap_new_loop by blast
      then have "ids (fst ?next) = ids w' @ map t_id extra" by (simp add: ids_def)
      then have "distinct (ids w')" using "1.prems"(2) eq distinct_earlier by metis
      then have "registry_consistent w'"
        using consistent_attempt[of w p "envs i"] "1.prems"(1) att by simp
      then show ?thesis
        using "1.IH"[OF True _ refl, of w' e] att Inl "1.prems"(2) eq by simp
    qed
  qed
qed

lemma consistent_gate: "registry_consistent w \<Longrightarrow> registry_consistent (fst (gate now w))"
  by (simp add: gate_def Let_def registry_consistent_def)

lemma consistent_Terminal_new:
  assumes "registry_consistent w" and "distinct (ids (fst (Terminal_new p envs now w)))"
  shows "registry_consistent (fst (Terminal_new p envs now w))"
proof -
  obtain w' slept where g: "gate now w = (w', slept)" by (cases "gate now w")
  then have "registry_consistent w'" using consistent_gate[OF assms(1), of now] by simp
  then show ?thesis
    using g assms(2) consistent_new_loop[of w' p envs 0] by (simp add: Terminal_new_def)
qed

lemma consistent_step:
  assumes "registry_consistent w" and "distinct (ids (step e w))"
  shows "registry_consistent (step e w)"
proof (cases e)
  case (Construct bytes process sel)
  then have "ids (step e w) = ids w @ [toString_hex bytes]"
    by (simp add: ids_def heap_constructor Terminal_init_def)
  with assms(2) have "toString_hex bytes \<notin> set (ids w)" by simp
  then show ?thesis using Construct consistent_constructor[OF assms(1)] by simp
next
  case (New p envs now)
  then show ?thesis using consistent_Terminal_new[OF assms(1)] assms(2) by simp
next
  case (Data r c)
  then show ?thesis using consistent_update[OF assms(1)] by (simp add: t_id_on_data t_running_on_data)
next
  case (Close r code sig)
  then show ?thesis using consistent_on_close[OF assms(1)] assms(2) by (simp add: ids_on_close)
next
  case (Kill r platform delivered sig)
  then show ?thesis using consistent_update[OF assms(1)] by (simp add: t_id_kill t_running_kill)
qed

lemma consistent_run:
  "registry_consistent w \<Longrightarrow> distinct (ids (run es w)) \<Longrightarrow> registry_consistent (run es w)"
proof (induction es arbitrary: w)
  case Nil
  then show ?case by (simp add: run_def)
next
  case (Cons e es)
  have r: "run (e # es) w = run es (step e w)" by (simp add: run_def)
  obtain extra where "ids (run es (step e w)) = ids (step e w) @ extra" using ids_run by blast
  then have "distinct (ids (step e w))" using Cons.prems(2) r distinct_earlier by metis
  then have "registry_consistent (step e w)" using consistent_step Cons.prems(1) by blast
  then show ?case using Cons.IH Cons.prems(2) r by simp
qed

lemma consistent_initial: "registry_consistent initial_world"
  by (simp add: registry_consistent_def initial_world_def)

subsection \<open>One controller along a history\<close>

lemma nth_update_terminal:
  "q < length (heap w) \<Longrightarrow>
   q < length (heap (update_terminal r f w))
   \<and> heap (update_terminal r f w) ! q = (if q = r then f (heap w ! q) else heap w ! q)"
  by (simp add: update_terminal_def)

lemma nth_step:
  assumes "q < length (heap w)"
  shows "q < length (heap (step e w))
     \<and> t_id (heap (step e w) ! q) = t_id (heap w ! q)
     \<and> (t_running (heap (step e w) ! q) \<longleftrightarrow> t_running (heap w ! q) \<and> (\<forall>code sig. e \<noteq> Close q code sig))"
proof (cases e)
  case (Construct bytes process sel)
  then show ?thesis using assms by (simp add: heap_constructor nth_append)
next
  case (New p envs now)
  obtain extra where "heap (fst (Terminal_new p envs now w)) = heap w @ extra"
    using heap_Terminal_new by blast
  then show ?thesis using assms New by (simp add: nth_append)
next
  case (Data r c)
  then show ?thesis
    using nth_update_terminal[OF assms, of r "on_data c"] by (simp add: t_id_on_data t_running_on_data)
next
  case (Close r code sig)
  then show ?thesis
    using assms by (cases "q = r") (simp_all add: on_close_def on_close_terminal_def)
next
  case (Kill r platform delivered sig)
  then show ?thesis
    using nth_update_terminal[OF assms, of r "\<lambda>t. fst (kill platform delivered sig t)"]
    by (simp add: t_id_kill t_running_kill)
qed

lemma nth_run:
  "q < length (heap w) \<Longrightarrow>
   q < length (heap (run es w))
   \<and> t_id (heap (run es w) ! q) = t_id (heap w ! q)
   \<and> (t_running (heap (run es w) ! q) \<longleftrightarrow> t_running (heap w ! q) \<and> (\<forall>code sig. Close q code sig \<notin> set es))"
proof (induction es arbitrary: w)
  case Nil
  then show ?case by (simp add: run_def)
next
  case (Cons e es)
  have r: "run (e # es) w = run es (step e w)" by (simp add: run_def)
  note s = nth_step[OF Cons.prems, of e]
  from s have "q < length (heap (step e w))" by simp
  from Cons.IH[OF this] s show ?case unfolding r by auto
qed

lemma run_append: "run (es @ es') w = run es' (run es w)"
  by (simp add: run_def)

lemma hex_new_loop:
  "\<forall>i \<in> set (ids w). hex_id i \<Longrightarrow> \<forall>j < nat (tryCount p). length (rnd (envs j)) = 16 \<Longrightarrow>
   \<forall>i \<in> set (ids (fst (new_loop p envs i w log))). hex_id i"
proof (induction p envs i w log rule: new_loop.induct)
  case (1 p envs i w log)
  show ?case
  proof (cases "int i < tryCount p")
    case False
    then show ?thesis using "1.prems" by (simp add: new_loop.simps)
  next
    case True
    then have "length (rnd (envs i)) = 16" using "1.prems"(2) by simp
    then have hex: "hex_id (toString_hex (rnd (envs i)))" by (rule hex_id_toString_hex)
    obtain w' res where att: "attempt p (envs i) w = (w', res)" by (cases "attempt p (envs i) w")
    have w': "\<forall>i \<in> set (ids w'). hex_id i"
      using heap_attempt[of p "envs i" w] att "1.prems"(1) hex
      by (auto simp: ids_def Terminal_init_def)
    show ?thesis
    proof (cases res)
      case (Inr terminal)
      with True att w' show ?thesis by (simp add: new_loop.simps[of p envs i])
    next
      case (Inl e)
      with True att w' "1.IH"[OF True _ refl, of w' e] "1.prems"(2) show ?thesis
        by (simp add: new_loop.simps[of p envs i])
    qed
  qed
qed

lemma ids_gate: "ids (fst (gate now w)) = ids w"
  by (simp add: ids_def heap_gate)

lemma hex_step:
  assumes "\<forall>i \<in> set (ids w). hex_id i" and "sixteen_bytes e"
  shows "\<forall>i \<in> set (ids (step e w)). hex_id i"
proof (cases e)
  case (Construct bytes process sel)
  then show ?thesis
    using assms hex_id_toString_hex[of bytes] by (auto simp: ids_def heap_constructor Terminal_init_def)
next
  case (New p envs now)
  obtain w' slept where g: "gate now w = (w', slept)" by (cases "gate now w")
  then have "ids w' = ids w" using ids_gate[of now w] by simp
  then show ?thesis
    using New g assms hex_new_loop[of w' p envs 0] by (simp add: Terminal_new_def)
next
  case (Data r c)
  then show ?thesis using assms(1) by (simp add: ids_update t_id_on_data)
next
  case (Close r code sig)
  then show ?thesis using assms(1) by (simp add: ids_on_close)
next
  case (Kill r platform delivered sig)
  then show ?thesis using assms(1) by (simp add: ids_update t_id_kill)
qed

lemma hex_run:
  "\<forall>i \<in> set (ids w). hex_id i \<Longrightarrow> list_all sixteen_bytes es \<Longrightarrow> \<forall>i \<in> set (ids (run es w)). hex_id i"
proof (induction es arbitrary: w)
  case Nil
  then show ?case by (simp add: run_def)
next
  case (Cons e es)
  from Cons.prems(2) have "sixteen_bytes e" and rest: "list_all sixteen_bytes es" by simp_all
  then have "\<forall>i \<in> set (ids (step e w)). hex_id i" using hex_step[OF Cons.prems(1)] by blast
  then have "\<forall>i \<in> set (ids (run es (step e w))). hex_id i" using Cons.IH rest by blast
  then show ?case by (simp add: run_def)
qed

lemma exited_not_found:
  assumes "registry_consistent w" and "distinct (ids w)" and "\<forall>i \<in> set (ids w). hex_id i"
    and "r < length (heap w)" and "\<not> t_running (heap w ! r)"
  shows "fromID w (t_id (heap w ! r)) = NotFound"
proof -
  have "all w (t_id (heap w ! r)) = None"
  proof (rule ccontr)
    assume "all w (t_id (heap w ! r)) \<noteq> None"
    then obtain q where q: "all w (t_id (heap w ! r)) = Some q" by blast
    then have *: "q < length (heap w)" "t_id (heap w ! q) = t_id (heap w ! r)" "t_running (heap w ! q)"
      using assms(1) by (simp_all add: registry_consistent_def)
    then have "q = r"
      using assms(2,4) nth_eq_iff_index_eq[of "ids w" q r] by (simp add: ids_def)
    with * assms(5) show False by simp
  qed
  moreover have "hex_id (t_id (heap w ! r))" using assms(3,4) by (simp add: ids_def)
  ultimately show ?thesis using hex_id_not_inherited by (simp add: fromID_def)
qed

text \<open>
  Claim C5: in every history in which identifiers do not repeat, \<^verbatim>\<open>fromID\<close> returns
  \<^verbatim>\<open>undefined\<close> for the identifier of a controller whose process has closed, the registry
  holds no entry for a controller that is not running, and for a registered identifier
  \<^verbatim>\<open>fromID\<close> returns the running controller that carries it. (\<^verbatim>\<open>fromID\<close> is one property
  read; its cost is not part of the model.)
\<close>

theorem exited_controller_not_found:
  assumes "list_all sixteen_bytes es" and "distinct (ids (run es initial_world))"
  shows "(\<forall>es1 r code sig es2.
            es = es1 @ Close r code sig # es2 \<and> r < length (heap (run es1 initial_world)) \<longrightarrow>
            fromID (run es initial_world) (t_id (heap (run es1 initial_world) ! r)) = NotFound)
       \<and> (\<forall>r < length (heap (run es initial_world)).
            \<not> t_running (heap (run es initial_world) ! r) \<longrightarrow>
            fromID (run es initial_world) (t_id (heap (run es initial_world) ! r)) = NotFound)
       \<and> (\<forall>i r. all (run es initial_world) i = Some r \<longrightarrow>
            r < length (heap (run es initial_world)) \<and> t_running (heap (run es initial_world) ! r)
            \<and> t_id (heap (run es initial_world) ! r) = i \<and> fromID (run es initial_world) i = Found r)"
proof -
  let ?w = "run es initial_world"
  have cons: "registry_consistent ?w"
    using consistent_run[OF consistent_initial assms(2)] .
  have hex: "\<forall>i \<in> set (ids ?w). hex_id i"
    using hex_run[of initial_world es] assms(1) by (simp add: ids_def initial_world_def)
  have b: "fromID ?w (t_id (heap ?w ! r)) = NotFound"
    if "r < length (heap ?w)" "\<not> t_running (heap ?w ! r)" for r
    using exited_not_found[OF cons assms(2) hex that] .
  have a: "fromID ?w (t_id (heap (run es1 initial_world) ! r)) = NotFound"
    if "es = es1 @ Close r code sig # es2" "r < length (heap (run es1 initial_world))"
    for es1 r code sig es2
  proof -
    have "?w = run (Close r code sig # es2) (run es1 initial_world)"
      using that(1) by (simp add: run_append)
    then have "r < length (heap ?w) \<and> t_id (heap ?w ! r) = t_id (heap (run es1 initial_world) ! r)
        \<and> \<not> t_running (heap ?w ! r)"
      using nth_run[OF that(2), of "Close r code sig # es2"] by auto
    then show ?thesis using b[of r] by simp
  qed
  have c: "r < length (heap ?w) \<and> t_running (heap ?w ! r) \<and> t_id (heap ?w ! r) = i \<and> fromID ?w i = Found r"
    if "all ?w i = Some r" for i r
    using cons that by (simp add: registry_consistent_def fromID_def)
  from a b c show ?thesis by blast
qed

lemma run_two_then_close:
  "run two_then_close initial_world =
     \<lparr>all = [toString_hex other_bytes \<mapsto> 1],
      heap = [on_close_terminal (Num 0) Null (Terminal_init example_bytes example_process None),
              Terminal_init other_bytes example_process None],
      lastRun = 0, runIntervalMS = 500\<rparr>"
  using ids_differ
  by (simp add: two_then_close_def run_def Terminal_constructor_def Let_def on_close_def
        initial_world_def Terminal_init_def fun_upd_twist)

text \<open>Two controllers, the first of which closes with exit code 0.\<close>

theorem exited_controller_not_found_witness:
  "list_all sixteen_bytes two_then_close
   \<and> distinct (ids (run two_then_close initial_world))
   \<and> fromID (run two_then_close initial_world) (toString_hex example_bytes) = NotFound
   \<and> fromID (run two_then_close initial_world) (toString_hex other_bytes) = Found 1"
proof -
  have wf: "list_all sixteen_bytes two_then_close"
    by (simp add: two_then_close_def sixteen)
  have d: "distinct (ids (run two_then_close initial_world))"
    using ids_differ by (simp add: run_two_then_close ids_def on_close_terminal_def Terminal_init_def)
  note c5 = exited_controller_not_found[OF wf d]
  have split: "two_then_close =
      [Construct example_bytes example_process None, Construct other_bytes example_process None]
        @ Close 0 (Num 0) Null # []"
    by (simp add: two_then_close_def)
  have before: "heap (run [Construct example_bytes example_process None,
                           Construct other_bytes example_process None] (initial_world :: unit world))
      = [Terminal_init example_bytes example_process None, Terminal_init other_bytes example_process None]"
    by (simp add: run_def Terminal_constructor_def Let_def initial_world_def)
  from c5 have exited: "\<And>es1 r code sig es2.
      two_then_close = es1 @ Close r code sig # es2 \<Longrightarrow> r < length (heap (run es1 initial_world)) \<Longrightarrow>
      fromID (run two_then_close initial_world) (t_id (heap (run es1 initial_world) ! r)) = NotFound"
    by blast
  have gone: "fromID (run two_then_close initial_world) (toString_hex example_bytes) = NotFound"
    using exited[OF split] before by (simp add: Terminal_init_def)
  have "all (run two_then_close initial_world) (toString_hex other_bytes) = Some 1"
    by (simp add: run_two_then_close)
  then have there: "fromID (run two_then_close initial_world) (toString_hex other_bytes) = Found 1"
    using c5 by blast
  from wf d gone there show ?thesis by blast
qed

lemma new_loop_returned:
  "snd (new_loop p envs i w log) = (Inr (Some r), log') \<Longrightarrow>
   r < length (heap (fst (new_loop p envs i w log))) \<and> t_running (heap (fst (new_loop p envs i w log)) ! r)"
proof (induction p envs i w log rule: new_loop.induct)
  case (1 p envs i w log)
  show ?case
  proof (cases "int i < tryCount p")
    case False
    then show ?thesis using "1.prems" by (simp add: new_loop.simps)
  next
    case True
    obtain w' res where att: "attempt p (envs i) w = (w', res)" by (cases "attempt p (envs i) w")
    show ?thesis
    proof (cases res)
      case (Inr terminal)
      then have eq: "new_loop p envs i w log = (w', Inr (Some terminal), log @ [Spawn, Sleep (intermissionMS p)])"
        using True att by (simp add: new_loop.simps[of p envs i])
      with "1.prems" have r: "terminal = r" by simp
      have "terminal = length (heap w) \<and> (\<exists>process. heap w' = heap w @ [Terminal_init (rnd (envs i)) process (valueSelector p)])"
        using att Inr
        by (auto simp: attempt_def Terminal_constructor_def Let_def
              split: sum.splits option.splits promise.splits)
      then show ?thesis using eq r by (auto simp: Terminal_init_def)
    next
      case (Inl e)
      with True att "1.IH"[OF True _ refl, of w' e] "1.prems" show ?thesis
        by (simp add: new_loop.simps[of p envs i])
    qed
  qed
qed

lemma Terminal_new_returned:
  assumes "snd (Terminal_new p envs now w) = (Inr (Some r), log)"
  shows "r < length (heap (fst (Terminal_new p envs now w))) \<and> t_running (heap (fst (Terminal_new p envs now w)) ! r)"
proof -
  obtain w' slept where g: "gate now w = (w', slept)" by (cases "gate now w")
  with assms show ?thesis
    using new_loop_returned[of p envs 0 w' "case slept of None \<Rightarrow> [] | Some sleepTime \<Rightarrow> [Sleep sleepTime]" r log]
    by (simp add: Terminal_new_def)
qed

text \<open>
  Claim C10: a controller returned by \<^verbatim>\<open>Terminal.new\<close> carries an identifier of 32 hex
  digits that does not change, and as long as its process has not closed and
  identifiers do not repeat, \<^verbatim>\<open>fromID\<close> of that identifier returns this controller.
\<close>

theorem fromID_returns_new_controller:
  assumes "list_all sixteen_bytes (es0 @ New p envs now # es)"
    and "distinct (ids (run (es0 @ New p envs now # es) initial_world))"
    and "snd (Terminal_new p envs now (run es0 initial_world)) = (Inr (Some r), log)"
    and "\<forall>code sig. Close r code sig \<notin> set es"
  shows "fromID (run (es0 @ New p envs now # es) initial_world)
           (t_id (heap (fst (Terminal_new p envs now (run es0 initial_world))) ! r)) = Found r
       \<and> hex_id (t_id (heap (fst (Terminal_new p envs now (run es0 initial_world))) ! r))
       \<and> t_id (heap (run (es0 @ New p envs now # es) initial_world) ! r)
           = t_id (heap (fst (Terminal_new p envs now (run es0 initial_world))) ! r)"
proof -
  let ?w0 = "run es0 initial_world"
  let ?w1 = "fst (Terminal_new p envs now ?w0)"
  let ?w = "run (es0 @ New p envs now # es) initial_world"
  have w: "?w = run es ?w1" by (simp add: run_def)
  from Terminal_new_returned[OF assms(3)] have r: "r < length (heap ?w1)" "t_running (heap ?w1 ! r)"
    by simp_all
  have later: "r < length (heap ?w) \<and> t_id (heap ?w ! r) = t_id (heap ?w1 ! r) \<and> t_running (heap ?w ! r)"
    using nth_run[OF r(1), of es] r(2) assms(4) unfolding w by simp
  have cons: "registry_consistent ?w"
    using consistent_run[OF consistent_initial assms(2)] .
  from later have lt: "r < length (heap ?w)" and same: "t_id (heap ?w ! r) = t_id (heap ?w1 ! r)"
    and alive: "t_running (heap ?w ! r)" by blast+
  from cons lt alive have "all ?w (t_id (heap ?w ! r)) = Some r"
    unfolding registry_consistent_def by blast
  then have "all ?w (t_id (heap ?w1 ! r)) = Some r" unfolding same .
  then have found: "fromID ?w (t_id (heap ?w1 ! r)) = Found r"
    by (simp add: fromID_def)
  have "\<forall>i \<in> set (ids ?w). hex_id i"
    using hex_run[of initial_world "es0 @ New p envs now # es"] assms(1)
    by (simp add: ids_def initial_world_def)
  moreover have "t_id (heap ?w ! r) \<in> set (ids ?w)" using lt by (simp add: ids_def)
  ultimately have "hex_id (t_id (heap ?w ! r))" by blast
  then have "hex_id (t_id (heap ?w1 ! r))" unfolding same .
  with found same show ?thesis by simp
qed

lemma first_attempt:
  "attempt example_params failing_env (w :: unit world) =
     (fst (Terminal_constructor example_bytes example_process None w), Inl (SpawnError ''ENOENT''))"
  by (simp add: attempt_def failing_env_def example_params_def example_process_def Let_def
        settle_window_Cons split: prod.splits)

lemma second_attempt:
  "attempt example_params settled_env (w :: unit world) =
     (fst (Terminal_constructor other_bytes example_process None w), Inr (length (heap w)))"
  by (simp add: attempt_def settled_env_def example_params_def example_process_def Let_def
        settle_window_Nil Terminal_constructor_def)

lemma new_second_settles:
  "Terminal_new example_params second_settles 1000 initial_world =
     (\<lparr>all = [toString_hex example_bytes \<mapsto> 0, toString_hex other_bytes \<mapsto> 1],
       heap = [Terminal_init example_bytes example_process None,
               Terminal_init other_bytes example_process None],
       lastRun = 1000, runIntervalMS = 500\<rparr>,
      Inr (Some 1), [Spawn, Sleep 500, Spawn, Sleep 1000])"
proof -
  have g: "gate 1000 (initial_world :: unit world) = (initial_world\<lparr>lastRun := 1000\<rparr>, None)"
    by (simp add: gate_def initial_world_def)
  have two: "int 0 < tryCount example_params" "int (0 + 1) < tryCount example_params"
    by (simp_all add: example_params_def)
  show ?thesis
    unfolding Terminal_new_def g
    by (simp add: new_loop.simps[of example_params second_settles 0]
          new_loop.simps[of example_params second_settles "Suc 0"] second_settles_def
          first_attempt second_attempt Terminal_constructor_def Let_def initial_world_def)
       (simp add: example_params_def Terminal_init_def)
qed

text \<open>
  A call whose first attempt fails and whose second settles, followed by a chunk for
  the new controller and a kill of the abandoned one.
\<close>

theorem fromID_returns_new_controller_witness:
  "list_all sixteen_bytes ([] @ New example_params second_settles 1000 # retry_then_data)
   \<and> distinct (ids (run ([] @ New example_params second_settles 1000 # retry_then_data) initial_world))
   \<and> snd (Terminal_new example_params second_settles 1000 (run [] initial_world))
        = (Inr (Some 1), [Spawn, Sleep 500, Spawn, Sleep 1000])
   \<and> (\<forall>code sig. Close 1 code sig \<notin> set retry_then_data)
   \<and> fromID (run ([] @ New example_params second_settles 1000 # retry_then_data) initial_world)
        (toString_hex other_bytes) = Found 1"
proof -
  let ?es = "[] @ New example_params second_settles 1000 # retry_then_data"
  have init: "run [] (initial_world :: unit world) = initial_world" by (simp add: run_def)
  have wf: "list_all sixteen_bytes ?es"
    by (simp add: retry_then_data_def second_settles_def failing_env_def settled_env_def sixteen)
  have heap: "map t_id (heap (run ?es initial_world)) = [toString_hex example_bytes, toString_hex other_bytes]"
    by (simp add: run_def retry_then_data_def new_second_settles update_terminal_def t_id_on_data
          t_id_kill Terminal_init_def)
  have d: "distinct (ids (run ?es initial_world))"
    using ids_differ unfolding ids_def heap by simp
  have ret: "snd (Terminal_new example_params second_settles 1000 (run [] initial_world))
        = (Inr (Some 1), [Spawn, Sleep 500, Spawn, Sleep 1000])"
    by (simp add: init new_second_settles)
  have still_open: "\<forall>code sig. Close 1 code sig \<notin> set retry_then_data"
    by (simp add: retry_then_data_def)
  have "fromID (run ?es initial_world)
          (t_id (heap (fst (Terminal_new example_params second_settles 1000 (run [] initial_world))) ! 1)) = Found 1"
    using fromID_returns_new_controller[OF wf d ret still_open] by blast
  then have "fromID (run ?es initial_world) (toString_hex other_bytes) = Found 1"
    by (simp add: init new_second_settles Terminal_init_def)
  with wf d ret still_open show ?thesis by blast
qed

subsection \<open>The exit fields\<close>

lemma exit_fields_step:
  assumes "q < length (heap w)" and "\<forall>code sig. e \<noteq> Close q code sig"
  shows "t_exitCode (heap (step e w) ! q) = t_exitCode (heap w ! q)
       \<and> t_exitSignal (heap (step e w) ! q) = t_exitSignal (heap w ! q)"
proof (cases e)
  case (Construct bytes process sel)
  then show ?thesis using assms by (simp add: heap_constructor nth_append)
next
  case (New p envs now)
  obtain extra where "heap (fst (Terminal_new p envs now w)) = heap w @ extra"
    using heap_Terminal_new by blast
  then show ?thesis using assms New by (simp add: nth_append)
next
  case (Data r c)
  then show ?thesis
    using nth_update_terminal[OF assms(1), of r "on_data c"]
    by (simp add: on_data_def split: option.splits)
next
  case (Close r code sig)
  with assms have "q \<noteq> r" by auto
  then show ?thesis using Close assms(1) by (simp add: on_close_def)
next
  case (Kill r platform delivered sig)
  then show ?thesis
    using nth_update_terminal[OF assms(1), of r "\<lambda>t. fst (kill platform delivered sig t)"]
    by (simp add: kill_def split: option.splits)
qed

lemma exit_fields_until_close:
  "q < length (heap w) \<Longrightarrow> \<forall>code sig. Close q code sig \<notin> set es \<Longrightarrow>
   t_exitCode (heap (run es w) ! q) = t_exitCode (heap w ! q)
   \<and> t_exitSignal (heap (run es w) ! q) = t_exitSignal (heap w ! q)
   \<and> t_running (heap (run es w) ! q) = t_running (heap w ! q)"
proof (induction es arbitrary: w)
  case Nil
  then show ?case by (simp add: run_def)
next
  case (Cons e es)
  have r: "run (e # es) w = run es (step e w)" by (simp add: run_def)
  from Cons.prems(2) have e: "\<forall>code sig. e \<noteq> Close q code sig"
    and es: "\<forall>code sig. Close q code sig \<notin> set es" by auto
  note s = nth_step[OF Cons.prems(1), of e] exit_fields_step[OF Cons.prems(1) e]
  from s have "q < length (heap (step e w))" by simp
  from Cons.IH[OF this es] s e show ?case unfolding r by simp
qed

lemma exit_fields_at_close:
  "q < length (heap w) \<Longrightarrow>
   t_exitCode (heap (step (Close q code sig) w) ! q) = code
   \<and> t_exitSignal (heap (step (Close q code sig) w) ! q) = sig
   \<and> \<not> t_running (heap (step (Close q code sig) w) ! q)"
  by (simp add: on_close_def on_close_terminal_def)

text \<open>
  Claim C7 says that \<^verbatim>\<open>exitCode\<close> and \<^verbatim>\<open>exitSignal\<close> are \<^verbatim>\<open>null\<close> from construction until
  the process closes. The constructor assigns neither field, so a new controller
  reads \<^verbatim>\<open>undefined\<close> for both. (The rest of the claim holds: the fields and \<^verbatim>\<open>running\<close>
  keep their values until \<^verbatim>\<open>'close'\<close>, which sets them, \<open>exit_fields_until_close\<close> and
  \<open>exit_fields_at_close\<close>.)
\<close>

theorem exit_fields_start_undefined:
  "t_exitCode plain_terminal = Undefined \<and> t_exitSignal plain_terminal = Undefined
   \<and> t_exitCode plain_terminal \<noteq> Null \<and> t_exitSignal plain_terminal \<noteq> Null
   \<and> t_running plain_terminal"
  by (simp add: plain_terminal_def Terminal_init_def)

subsection \<open>Killing\<close>

lemma kill_not_running: "\<not> t_running t \<Longrightarrow> kill platform delivered sig t = (t, [])"
  by (simp add: kill_def)

lemma kill_already_killed: "killed (t_process t) \<Longrightarrow> kill platform delivered sig t = (t, [])"
  by (simp add: kill_def)

lemma kill_twice_signal:
  "platform \<noteq> ''win32'' \<Longrightarrow> t_running t \<Longrightarrow> \<not> killed (t_process t) \<Longrightarrow>
   kill_twice platform True sig t = (fst (kill platform True sig t), [ProcessKill sig], [])"
  by (simp add: kill_twice_def kill_def ChildProcess_kill_def)

text \<open>
  Claim C6 says that a second call of \<^verbatim>\<open>kill()\<close> right after the first has no further
  effect. On Windows the first call runs \<^verbatim>\<open>treeKill\<close>, which leaves \<^verbatim>\<open>process.killed\<close> as
  it was, and the controller stays running until \<^verbatim>\<open>'close'\<close>; so the second call runs
  \<^verbatim>\<open>treeKill\<close> again. (The guards themselves hold, \<open>kill_not_running\<close> and
  \<open>kill_already_killed\<close>, and elsewhere a delivered signal makes the second call do
  nothing, \<open>kill_twice_signal\<close>.)
\<close>

theorem kill_twice_on_windows:
  "kill_twice ''win32'' True ''SIGTERM'' plain_terminal
     = (plain_terminal, [TreeKill 4242 ''SIGTERM''], [TreeKill 4242 ''SIGTERM''])"
  by (simp add: kill_twice_def kill_def plain_terminal_def Terminal_init_def example_process_def)

subsection \<open>The buffer and the stream\<close>

lemma on_data_keeps_buffer: "t_data (on_data c t) = t_data t"
  by (simp add: on_data_def split: option.splits)

lemma fold_on_data_buffer: "t_data (fold on_data early t) = t_data t"
  by (induction early arbitrary: t) (simp_all add: on_data_keeps_buffer)

lemma on_data_keeps_selector: "t_valueSelector (on_data c t) = t_valueSelector t"
  by (simp add: on_data_def split: option.splits)

lemma fold_on_data_selector: "t_valueSelector (fold on_data early t) = t_valueSelector t"
  by (induction early arbitrary: t) (simp_all add: on_data_keeps_selector)

lemma on_data_stdout: "(stdout (t_process (on_data c t)) = None) = (stdout (t_process t) = None)"
  by (simp add: on_data_def split: option.splits)

lemma fold_on_data_stdout:
  "(stdout (t_process (fold on_data early t)) = None) = (stdout (t_process t) = None)"
  by (induction early arbitrary: t) (simp_all add: on_data_stdout)

lemma early_chunks_never_yielded: "listen_after early t live = listen t live"
proof -
  have "listen_private (fold on_data early t) live = listen_private t live"
    using fold_on_data_stdout[of early t]
    by (auto simp: listen_private_def fold_on_data_buffer split: option.splits)
  then show ?thesis
    by (simp add: listen_after_def listen_def fold_on_data_selector)
qed

lemma for_await_error:
  "for_await_stdout (map Chunk cs @ Error e # rest) = (map toString_utf8 cs, Threw e)"
  by (induction cs) simp_all

lemma for_await_end:
  "for_await_stdout (map Chunk cs @ End # rest) = (map toString_utf8 cs, Returned)"
  by (induction cs) simp_all

lemma listen_loop_items: "fst (listen_loop sel texts k) = fst (listen_loop sel texts k')"
  by (induction texts) (auto split: option.splits sum.splits prod.splits)

lemma listen_loop_threw: "\<exists>e'. snd (listen_loop sel texts (Threw e)) = Threw e'"
  by (induction texts) (auto split: option.splits sum.splits prod.splits)

lemma listen_no_selector:
  "t_valueSelector t = None \<Longrightarrow> stdout (t_process t) \<noteq> None \<Longrightarrow>
   listen t (map Chunk cs @ End # rest) = (map Text (map toString_utf8 (t_data t @ cs)), Returned)"
proof -
  have loop: "listen_loop None texts k = (map Text texts, k)" for texts k
    by (induction texts) (simp_all split: prod.splits)
  assume "t_valueSelector t = None" "stdout (t_process t) \<noteq> None"
  then show ?thesis
    by (auto simp: listen_def listen_private_def for_await_end loop)
qed

text \<open>
  Claim C1 says that chunks which arrive before a consumer iterates \<^verbatim>\<open>listen()\<close> are
  yielded first, in their order, before the live chunks. Here one chunk arrives early
  and one after the consumer has started: only the second is yielded. The early chunk
  went to the listener of line 109, which stored it on the stream object and not in
  \<^verbatim>\<open>#data\<close> (\<open>early_chunks_never_yielded\<close> above holds for every controller).
\<close>

theorem early_chunk_is_lost:
  "listen_after [js ''early''] plain_terminal [Chunk (js ''live''), End] = ([Text (js ''live'')], Returned)"
  by (simp add: listen_after_def listen_def listen_private_def plain_terminal_def Terminal_init_def
        example_process_def on_data_def toString_utf8_def)

subsection \<open>Errors after the settle window\<close>

text \<open>
  Claim C8, as the code has it: once the settle window has passed without an error, a
  later \<^verbatim>\<open>'error'\<close> event leaves the promise of the attempt resolved (nothing is
  retried) and leaves the controller as it was; a \<^verbatim>\<open>listen()\<close> in progress yields the
  items it would have yielded had the stream ended there and no more, and, when the
  process has an output stream, it ends by throwing.
\<close>

theorem late_error_leaves_controller:
  "promise (settle_window errs) = Resolved \<longrightarrow>
     promise (snd (emit_error src e (t, settle_window errs))) = Resolved
     \<and> fst (emit_error src e (t, settle_window errs)) = t
     \<and> fst (listen t (map Chunk cs @ Error e # rest)) = fst (listen t (map Chunk cs @ [End]))
     \<and> (stdout (t_process t) \<noteq> None \<longrightarrow>
          (\<exists>e'. snd (listen t (map Chunk cs @ Error e # rest)) = Threw e'))"
proof
  assume settled: "promise (settle_window errs) = Resolved"
  then have a: "promise (snd (emit_error src e (t, settle_window errs))) = Resolved"
    by (simp add: emit_error_def promise_reject_stays)
  have b: "fst (emit_error src e (t, settle_window errs)) = t"
    by (simp add: emit_error_def)
  have c: "fst (listen t (map Chunk cs @ Error e # rest)) = fst (listen t (map Chunk cs @ [End]))"
    using listen_loop_items[of "t_valueSelector t" _ "Threw e" Returned]
    by (cases "stdout (t_process t)")
       (simp_all add: listen_def listen_private_def Let_def for_await_error for_await_end)
  have d: "\<exists>e'. snd (listen t (map Chunk cs @ Error e # rest)) = Threw e'"
    if "stdout (t_process t) \<noteq> None"
    using that listen_loop_threw[of "t_valueSelector t" _ e]
    by (auto simp: listen_def listen_private_def Let_def for_await_error)
  from a b c d show "promise (snd (emit_error src e (t, settle_window errs))) = Resolved
     \<and> fst (emit_error src e (t, settle_window errs)) = t
     \<and> fst (listen t (map Chunk cs @ Error e # rest)) = fst (listen t (map Chunk cs @ [End]))
     \<and> (stdout (t_process t) \<noteq> None \<longrightarrow>
          (\<exists>e'. snd (listen t (map Chunk cs @ Error e # rest)) = Threw e'))"
    by blast
qed

text \<open>An \<^verbatim>\<open>EIO\<close> error on the output stream after one chunk.\<close>

theorem late_error_leaves_controller_witness:
  "promise (settle_window []) = Resolved
   \<and> stdout (t_process plain_terminal) \<noteq> None
   \<and> fst (emit_error OnStdout (StreamError ''EIO'') (plain_terminal, settle_window [])) = plain_terminal
   \<and> fst (listen plain_terminal (map Chunk [js ''a''] @ Error (StreamError ''EIO'') # [Chunk (js ''b'')]))
       = [Text (js ''a'')]"
  using late_error_leaves_controller[of "[]" OnStdout "StreamError ''EIO''" plain_terminal "[js ''a'']" "[Chunk (js ''b'')]"]
  by (simp add: settle_window_Nil)
     (simp add: listen_def listen_private_def plain_terminal_def Terminal_init_def example_process_def
        toString_utf8_def)

text \<open>
  Claim C8 as it is written fails: after the error the controller is still running,
  and the iteration ends with the error thrown, not with a plain end.
\<close>

theorem late_error_counterexample:
  "t_running (fst (emit_error OnStdout (StreamError ''EIO'') (plain_terminal, settle_window [])))
   \<and> listen plain_terminal [Chunk (js ''a''), Error (StreamError ''EIO''), Chunk (js ''b'')]
       = ([Text (js ''a'')], Threw (StreamError ''EIO''))"
  by (simp add: emit_error_def listen_def listen_private_def plain_terminal_def Terminal_init_def
        example_process_def toString_utf8_def)

subsection \<open>The selector\<close>

lemmas rx_defs = rx_test_def rx_exec_def ALREADY_DOWNLOADED_RE_def DOWNLOAD_PROGRESS_RE_def lit_def js_def
  white_space_def dot_def line_terminator_def canonicalize_def

lemmas json_defs = JSON_parse_def skip_ws_def json_ws_def digit_def lex_word_def lex_number_def lex_int_def
  lex_frac_def lex_exp_def lex_digits_def consumed_def hex_value_def escape_def

lemma rmatch_two:
  "rmatch (One P # One Q # items) text \<noteq> [] \<Longrightarrow> \<exists>c d rest. text = c # d # rest \<and> P c \<and> Q d"
proof (cases "text")
  case Nil
  assume "rmatch (One P # One Q # items) text \<noteq> []"
  with Nil show ?thesis by simp
next
  case (Cons c cs)
  assume m: "rmatch (One P # One Q # items) text \<noteq> []"
  show ?thesis
  proof (cases cs)
    case Nil
    with m Cons show ?thesis by (simp split: if_splits)
  next
    case (Cons d rest)
    with m \<open>text = c # cs\<close> show ?thesis by (simp split: if_splits)
  qed
qed

lemma rx_exec_matches: "rx_exec r text = Some g \<Longrightarrow> rmatch (fst r) text \<noteq> []"
  by (auto simp: rx_exec_def split: list.splits)

lemma patterns_disjoint:
  assumes "rx_exec DOWNLOAD_PROGRESS_RE text = Some payload"
  shows "\<not> rx_test ALREADY_DOWNLOADED_RE text"
proof
  assume "rx_test ALREADY_DOWNLOADED_RE text"
  then have "\<exists>c d rest. text = c # d # rest \<and> canonicalize d = canonicalize (of_char CHR ''d'')"
    unfolding rx_test_def ALREADY_DOWNLOADED_RE_def lit_def
    using rmatch_two by (simp del: rmatch.simps) blast
  moreover have "\<exists>c d rest. text = c # d # rest \<and> canonicalize d = canonicalize (of_char CHR ''p'')"
    using rx_exec_matches[OF assms] unfolding DOWNLOAD_PROGRESS_RE_def lit_def
    using rmatch_two by (simp del: rmatch.simps) blast
  ultimately show False by (auto simp: canonicalize_def)
qed

text \<open>
  Claim C9, as the code has it: \<^verbatim>\<open>downloadValueSelector\<close> returns \<^verbatim>\<open>{stop: true}\<close> for a
  text that matches the "already downloaded" expression; for a text that matches the
  progress expression it returns \<^verbatim>\<open>{data: JSON.parse(payload)}\<close> when the captured payload
  parses and throws the \<^verbatim>\<open>SyntaxError\<close> of \<^verbatim>\<open>JSON.parse\<close> when it does not; for any other
  text it returns \<^verbatim>\<open>null\<close>.
\<close>

theorem downloadValueSelector_cases:
  "(rx_test ALREADY_DOWNLOADED_RE text \<longrightarrow> downloadValueSelector parse text = Inr StopObj)
   \<and> (rx_exec DOWNLOAD_PROGRESS_RE text = Some payload \<longrightarrow>
        downloadValueSelector parse text =
          (case parse payload of None \<Rightarrow> Inl SyntaxError | Some j \<Rightarrow> Inr (DataObj j)))
   \<and> (\<not> rx_test ALREADY_DOWNLOADED_RE text \<and> rx_exec DOWNLOAD_PROGRESS_RE text = None \<longrightarrow>
        downloadValueSelector parse text = Inr NullVal)"
proof -
  have "downloadValueSelector parse text =
          (case parse payload of None \<Rightarrow> Inl SyntaxError | Some j \<Rightarrow> Inr (DataObj j))"
    if "rx_exec DOWNLOAD_PROGRESS_RE text = Some payload"
    using that patterns_disjoint[OF that] by (simp add: downloadValueSelector_def)
  then show ?thesis by (simp add: downloadValueSelector_def)
qed

lemma already_line_matches: "rx_test ALREADY_DOWNLOADED_RE already_line"
  by (simp add: already_line_def rx_defs)

lemma progress_line_payload: "rx_exec DOWNLOAD_PROGRESS_RE progress_line = Some (js ''{}'')"
  by (simp add: progress_line_def rx_defs)

lemma broken_line_payload: "rx_exec DOWNLOAD_PROGRESS_RE broken_line = Some (js ''x'')"
  by (simp add: broken_line_def rx_defs)

lemma other_line_no_match:
  "\<not> rx_test ALREADY_DOWNLOADED_RE other_line \<and> rx_exec DOWNLOAD_PROGRESS_RE other_line = None"
  by (simp add: other_line_def rx_defs)

lemma parse_empty_object: "JSON_parse (js ''{}'') = Some (JObject [])"
  by (simp add: js_def json_defs)

lemma parse_x: "JSON_parse (js ''x'') = None"
  by (simp add: js_def json_defs)

text \<open>One line of each of the three kinds.\<close>

theorem downloadValueSelector_cases_witness:
  "rx_test ALREADY_DOWNLOADED_RE already_line
   \<and> downloadValueSelector JSON_parse already_line = Inr StopObj
   \<and> rx_exec DOWNLOAD_PROGRESS_RE progress_line = Some (js ''{}'')
   \<and> downloadValueSelector JSON_parse progress_line = Inr (DataObj (JObject []))
   \<and> \<not> rx_test ALREADY_DOWNLOADED_RE other_line \<and> rx_exec DOWNLOAD_PROGRESS_RE other_line = None
   \<and> downloadValueSelector JSON_parse other_line = Inr NullVal"
  using downloadValueSelector_cases[of already_line JSON_parse "js ''{}''"] downloadValueSelector_cases[of progress_line JSON_parse "js ''{}''"]
    downloadValueSelector_cases[of other_line JSON_parse "js ''{}''"]
    already_line_matches progress_line_payload other_line_no_match parse_empty_object
  by simp

text \<open>
  Claim C9 as it is written fails for a progress line whose payload is not JSON: no
  result is returned.
\<close>

theorem progress_payload_counterexample:
  "rx_exec DOWNLOAD_PROGRESS_RE broken_line = Some (js ''x'')
   \<and> downloadValueSelector JSON_parse broken_line = Inl SyntaxError"
proof -
  have "\<not> rx_test ALREADY_DOWNLOADED_RE broken_line"
    using patterns_disjoint[OF broken_line_payload] .
  then show ?thesis
    using broken_line_payload parse_x by (simp add: downloadValueSelector_def)
qed

text \<open>
  Claim C2 says that a \<^verbatim>\<open>{stop: true}\<close> result ends the sequence without a value, that a
  result with a value yields that value, and that a result with neither is dropped.
  With the selector of \<^verbatim>\<open>download\<close> installed and an "already downloaded" line followed
  by a progress line, \<^verbatim>\<open>listen()\<close> yields the stop object itself, goes on, and yields the
  whole \<^verbatim>\<open>{data: ...}\<close> object for the second line: it yields whatever the selector
  returns. (Without a selector it yields the texts, \<open>listen_no_selector\<close>.)
\<close>

theorem listen_yields_stop_object:
  "listen download_terminal [Chunk already_line, Chunk progress_line, End]
     = ([Selected StopObj, Selected (DataObj (JObject []))], Returned)"
proof -
  have a: "downloadValueSelector JSON_parse already_line = Inr StopObj"
    using already_line_matches by (simp add: downloadValueSelector_def)
  have "\<not> rx_test ALREADY_DOWNLOADED_RE progress_line"
    using patterns_disjoint[OF progress_line_payload] .
  then have p: "downloadValueSelector JSON_parse progress_line = Inr (DataObj (JObject []))"
    using progress_line_payload parse_empty_object by (simp add: downloadValueSelector_def)
  show ?thesis
    by (simp add: listen_def listen_private_def download_terminal_def Terminal_init_def
          example_process_def toString_utf8_def a p)
qed

end
